theory Spec2Isabelle
  imports Main "HOL-Library.AList"
begin

section \<open>Machine integers and time\<close>

text \<open>
  Go's \<open>int\<close> and \<open>int64\<close> are 64-bit two's complement: the model keeps them as
  \<open>int\<close> and writes the wrap-around out at every addition and multiplication whose
  operands are not bounded by the code itself.
\<close>

definition wrap64 :: "int \<Rightarrow> int" where
  "wrap64 x = (x + 9223372036854775808) mod 18446744073709551616 - 9223372036854775808"

text \<open>
  A \<open>time.Time\<close> is an instant in nanoseconds, a \<open>time.Duration\<close> a 64-bit count of
  nanoseconds. \<open>Time.Sub\<close> saturates at the largest and the smallest duration.
\<close>

definition maxDuration :: int where
  "maxDuration = 9223372036854775807"

definition minDuration :: int where
  "minDuration = - 9223372036854775808"

definition time_Sub :: "int \<Rightarrow> int \<Rightarrow> int" where
  "time_Sub t u =
     (let d = t - u
      in if maxDuration < d then maxDuration else if d < minDuration then minDuration else d)"

text \<open>
  \<open>int(elapsed.Minutes())\<close>: the duration in minutes, truncated towards zero. The
  source goes through a \<open>float64\<close>; the model divides exactly. The two agree unless
  the float sum of whole minutes and fraction is rounded up to the next minute, which
  takes at least \<open>2 ^ 18\<close> minutes (182 days) elapsed and a reading within nanoseconds
  of a minute boundary.
\<close>

definition Minutes_int :: "int \<Rightarrow> int" where
  "Minutes_int d = (if 0 \<le> d then d div 60000000000 else - ((- d) div 60000000000))"

text \<open>Go's integer division by a positive constant truncates towards zero.\<close>

definition go_div :: "int \<Rightarrow> int \<Rightarrow> int" where
  "go_div a b = (if 0 \<le> a then a div b else - ((- a) div b))"


section \<open>Rate limiter (token bucket)\<close>

record RateLimitConfig =
  DefaultLimit :: int
  Services :: "string \<rightharpoonup> int"
  Window :: int

record tokenBucket =
  tokens :: int
  capacity :: int
  refillRate :: int
  lastRefill :: int

record TokenBucketLimiter =
  buckets :: "string \<rightharpoonup> tokenBucket"
  config :: RateLimitConfig

definition NewRateLimiter :: "RateLimitConfig \<Rightarrow> TokenBucketLimiter" where
  "NewRateLimiter cfg =
     (let cfg1 = (if Window cfg = 0 then cfg\<lparr>Window := 60000000000\<rparr> else cfg);
          cfg2 = (if DefaultLimit cfg1 = 0 then cfg1\<lparr>DefaultLimit := 60\<rparr> else cfg1)
      in \<lparr>buckets = Map.empty, config = cfg2\<rparr>)"

text \<open>
  \<open>consume\<close> reads the clock once (\<open>now\<close>), refills lazily and takes one token when
  there is one. \<open>refill\<close> is its first half (the block that tops the bucket up),
  \<open>consume\<close> the whole: the result is the admission flag and the bucket as left behind.
\<close>

definition refill :: "int \<Rightarrow> tokenBucket \<Rightarrow> tokenBucket" where
  "refill now b =
     (let elapsed = time_Sub now (lastRefill b);
          tokensToAdd = wrap64 (Minutes_int elapsed * refillRate b)
      in if 0 < tokensToAdd
         then b\<lparr>tokens := min (capacity b) (wrap64 (tokens b + tokensToAdd)), lastRefill := now\<rparr>
         else b)"

definition consume :: "int \<Rightarrow> tokenBucket \<Rightarrow> bool \<times> tokenBucket" where
  "consume now b =
     (let b1 = refill now b
      in if 0 < tokens b1 then (True, b1\<lparr>tokens := tokens b1 - 1\<rparr>) else (False, b1))"

text \<open>The limit of a service: its own entry of the configuration, else the default.\<close>

definition limit_of :: "RateLimitConfig \<Rightarrow> string \<Rightarrow> int" where
  "limit_of cfg service =
     (case Services cfg service of Some serviceLimit \<Rightarrow> serviceLimit | None \<Rightarrow> DefaultLimit cfg)"

text \<open>
  \<open>Allow\<close> creates the bucket on first use, full, stamped with the clock reading
  \<open>created\<close>, and then consumes from it at the later reading \<open>now\<close>. The locks of the
  source serialise the calls; the model is the serialised run.
\<close>

definition Allow :: "TokenBucketLimiter \<Rightarrow> int \<Rightarrow> int \<Rightarrow> string \<Rightarrow> bool \<times> TokenBucketLimiter" where
  "Allow t created now service =
     (let bucket = (case buckets t service of
                      Some b \<Rightarrow> b
                    | None \<Rightarrow>
                        (let limit = limit_of (config t) service
                         in \<lparr>tokens = limit, capacity = limit, refillRate = limit,
                             lastRefill = created\<rparr>));
          (ok, bucket') = consume now bucket
      in (ok, t\<lparr>buckets := (buckets t)(service \<mapsto> bucket')\<rparr>))"

definition Reset :: "TokenBucketLimiter \<Rightarrow> int \<Rightarrow> string \<Rightarrow> TokenBucketLimiter" where
  "Reset t now service =
     (case buckets t service of
        Some bucket \<Rightarrow>
          t\<lparr>buckets := (buckets t)(service \<mapsto> bucket\<lparr>tokens := capacity bucket, lastRefill := now\<rparr>)\<rparr>
      | None \<Rightarrow> t)"


datatype limiter_op = OpAllow string int int | OpReset string int

fun limiter_step :: "TokenBucketLimiter \<Rightarrow> limiter_op \<Rightarrow> TokenBucketLimiter" where
  "limiter_step t (OpAllow service created now) = snd (Allow t created now service)"
| "limiter_step t (OpReset service now) = Reset t now service"

definition limiter_run :: "TokenBucketLimiter \<Rightarrow> limiter_op list \<Rightarrow> TokenBucketLimiter" where
  "limiter_run t ops = foldl limiter_step t ops"

text \<open>
  The bucket invariant of the data model, together with what keeps the refill arithmetic
  inside 64 bits: \<open>Time.Sub\<close> yields at most 153722867 whole minutes, so a capacity
  with \<open>capacity * 153722868 < 2 ^ 63\<close> never overflows.
\<close>

definition bucket_ok :: "tokenBucket \<Rightarrow> bool" where
  "bucket_ok b \<longleftrightarrow>
     refillRate b = capacity b \<and> 0 \<le> tokens b \<and> tokens b \<le> capacity b \<and>
     capacity b * 153722868 < 9223372036854775808"

section \<open>Cache store (in-memory backend)\<close>

text \<open>
  The entry map is kept as an association list with distinct keys. Go leaves the order in
  which \<open>range\<close> visits a map unspecified: the functions that iterate take the order
  as a parameter \<open>range_order\<close>, which rearranges the entries. Serialisation is the
  JSON library's: \<open>marshal\<close> and \<open>unmarshal\<close> are parameters, and a serialised value
  is a byte string. Sizes are byte counts of values held in memory, far below \<open>2 ^ 63\<close>:
  the size accounting is not wrapped.
\<close>

datatype cache_error = ErrCacheMiss string | ErrCacheExpired string | ErrJSON string

text \<open>The text of the error, as \<open>fmt.Errorf\<close> builds it.\<close>

fun cache_error_text :: "cache_error \<Rightarrow> string" where
  "cache_error_text (ErrCacheMiss key) = ''cache miss: '' @ key"
| "cache_error_text (ErrCacheExpired key) = ''cache expired: '' @ key"
| "cache_error_text (ErrJSON msg) = msg"

record CacheConfig =
  CacheType :: string
  TTL :: int
  MaxSize :: int
  RedisURL :: string

record cacheItem =
  item_value :: string
  expiredAt :: int

record MemoryCache =
  data :: "(string \<times> cacheItem) list"
  maxSize :: int
  currentSize :: int

definition NewMemoryCache :: "CacheConfig \<Rightarrow> MemoryCache" where
  "NewMemoryCache cfg = \<lparr>data = [], maxSize = MaxSize cfg, currentSize = 0\<rparr>"

definition Delete :: "MemoryCache \<Rightarrow> string \<Rightarrow> MemoryCache" where
  "Delete m key =
     (case map_of (data m) key of
        Some item \<Rightarrow>
          m\<lparr>currentSize := currentSize m - int (length (item_value item)),
            data := AList.delete key (data m)\<rparr>
      | None \<Rightarrow> m)"

definition Get ::
  "(string \<Rightarrow> string + 'v) \<Rightarrow> int \<Rightarrow> MemoryCache \<Rightarrow> string \<Rightarrow> (cache_error + 'v) \<times> MemoryCache" where
  "Get unmarshal now m key =
     (case map_of (data m) key of
        None \<Rightarrow> (Inl (ErrCacheMiss key), m)
      | Some item \<Rightarrow>
          if expiredAt item < now then (Inl (ErrCacheExpired key), Delete m key)
          else (case unmarshal (item_value item) of
                  Inl msg \<Rightarrow> (Inl (ErrJSON msg), m)
                | Inr v \<Rightarrow> (Inr v, m)))"

text \<open>
  The loop of \<open>evictLRU\<close>: the pair \<open>(oldestKey, oldestTime)\<close>, started at the empty
  string and the zero time, after visiting the entries in the given order. The key it
  ends on is a key of the map, since the order only rearranges the entries; the lookup
  of \<open>evictLRU\<close> has no other case to take.
\<close>

definition evict_scan :: "(string \<times> cacheItem) list \<Rightarrow> string \<times> int" where
  "evict_scan entries =
     foldl (\<lambda>(oldestKey, oldestTime) (key, item).
              if oldestKey = [] \<or> expiredAt item < oldestTime then (key, expiredAt item)
              else (oldestKey, oldestTime))
           ([], 0) entries"

definition evictLRU ::
  "((string \<times> cacheItem) list \<Rightarrow> (string \<times> cacheItem) list) \<Rightarrow> MemoryCache \<Rightarrow> MemoryCache" where
  "evictLRU range_order m =
     (let oldestKey = fst (evict_scan (range_order (data m)))
      in if oldestKey \<noteq> []
         then (case map_of (data m) oldestKey of
                 Some item \<Rightarrow>
                   m\<lparr>currentSize := currentSize m - int (length (item_value item)),
                     data := AList.delete oldestKey (data m)\<rparr>
               | None \<Rightarrow> m)
         else m)"

definition Set ::
  "((string \<times> cacheItem) list \<Rightarrow> (string \<times> cacheItem) list) \<Rightarrow> ('v \<Rightarrow> string + string) \<Rightarrow>
   int \<Rightarrow> MemoryCache \<Rightarrow> string \<Rightarrow> 'v \<Rightarrow> int \<Rightarrow> cache_error option \<times> MemoryCache" where
  "Set range_order marshal now m key v ttl =
     (case marshal v of
        Inl msg \<Rightarrow> (Some (ErrJSON msg), m)
      | Inr bytes \<Rightarrow>
          (let m1 = (if 0 < maxSize m \<and> maxSize m < currentSize m + int (length bytes)
                     then evictLRU range_order m else m)
           in (None,
               m1\<lparr>data := AList.update key \<lparr>item_value = bytes, expiredAt = now + ttl\<rparr> (data m1),
                  currentSize := currentSize m1 + int (length bytes)\<rparr>)))"

text \<open>A run of \<open>Set\<close> calls, each with its clock reading, key, value and time to live.\<close>

fun Set_all ::
  "((string \<times> cacheItem) list \<Rightarrow> (string \<times> cacheItem) list) \<Rightarrow> ('v \<Rightarrow> string + string) \<Rightarrow>
   MemoryCache \<Rightarrow> (int \<times> string \<times> 'v \<times> int) list \<Rightarrow> MemoryCache" where
  "Set_all range_order marshal m [] = m"
| "Set_all range_order marshal m ((now, key, v, ttl) # rest) =
     Set_all range_order marshal (snd (Set range_order marshal now m key v ttl)) rest"

definition op_key :: "int \<times> string \<times> 'v \<times> int \<Rightarrow> string" where
  "op_key op = fst (snd op)"

text \<open>
  The shape of a cache that only ever stored values of one serialised size \<open>s\<close> under
  distinct, non-empty keys.
\<close>

definition uniform_cache :: "nat \<Rightarrow> MemoryCache \<Rightarrow> bool" where
  "uniform_cache s m \<longleftrightarrow>
     distinct (map fst (data m)) \<and> [] \<notin> fst ` set (data m) \<and>
     (\<forall>(k, item) \<in> set (data m). length (item_value item) = s) \<and>
     currentSize m = int s * int (length (data m))"

section \<open>Worker pool and pool registry\<close>

datatype error =
    ErrClientNotFound string
  | ErrRateLimit string
  | ErrQueueFull
  | ErrContext string
  | ErrRequest string
  | ErrAllFailed string

fun error_text :: "error \<Rightarrow> string" where
  "error_text (ErrClientNotFound serviceName) = ''service client not found: '' @ serviceName"
| "error_text (ErrRateLimit serviceName) = ''rate limit exceeded for service: '' @ serviceName"
| "error_text ErrQueueFull = ''job queue is full''"
| "error_text (ErrContext msg) = msg"
| "error_text (ErrRequest msg) = msg"
| "error_text (ErrAllFailed serviceName) = ''all services failed for: '' @ serviceName"

text \<open>
  A job is known to the pool by its identifier; its function, context and result channel
  are played by the dispatcher below. The bounded channel \<open>jobQueue\<close> is its buffer
  together with its capacity \<open>queueSize\<close>. (\<open>make\<close> panics on a negative capacity:
  the capacity of a pool that exists is a natural number.)
\<close>

record Job =
  ID :: string

record WorkerPool =
  pool_name :: string
  jobQueue :: "Job list"
  queueSize :: nat
  maxWorkers :: int

record OptimizerConfig =
  MaxWorkers :: int
  WorkerIdleTimeout :: int
  QueueSize :: int
  GCPercent :: int
  MaxMemoryMB :: int

record Optimizer =
  opt_config :: OptimizerConfig
  pools :: "string \<rightharpoonup> WorkerPool"

definition NewOptimizer :: "int \<Rightarrow> OptimizerConfig \<Rightarrow> Optimizer" where
  "NewOptimizer numCPU cfg =
     (let c1 = (if MaxWorkers cfg = 0 then cfg\<lparr>MaxWorkers := numCPU * 2\<rparr> else cfg);
          c2 = (if WorkerIdleTimeout c1 = 0 then c1\<lparr>WorkerIdleTimeout := 30000000000\<rparr> else c1);
          c3 = (if QueueSize c2 = 0 then c2\<lparr>QueueSize := 1000\<rparr> else c2);
          c4 = (if GCPercent c3 = 0 then c3\<lparr>GCPercent := 100\<rparr> else c3)
      in \<lparr>opt_config = c4, pools = Map.empty\<rparr>)"

definition NewWorkerPool :: "string \<Rightarrow> int \<Rightarrow> int \<Rightarrow> WorkerPool" where
  "NewWorkerPool name workers qsize =
     \<lparr>pool_name = name, jobQueue = [], queueSize = nat qsize, maxWorkers = workers\<rparr>"

definition GetOrCreatePool :: "Optimizer \<Rightarrow> string \<Rightarrow> WorkerPool \<times> Optimizer" where
  "GetOrCreatePool opt name =
     (case pools opt name of
        Some pool \<Rightarrow> (pool, opt)
      | None \<Rightarrow>
          (let pool = NewWorkerPool name (MaxWorkers (opt_config opt)) (QueueSize (opt_config opt))
           in (pool, opt\<lparr>pools := (pools opt)(name \<mapsto> pool)\<rparr>)))"

text \<open>
  \<open>Submit\<close> is a \<open>select\<close> with a \<open>default\<close> branch: the send is taken when the
  buffer has room, the default branch otherwise; neither waits. With a positive capacity
  a receiver parked on the channel means an empty buffer, so the dispatch loop does not
  change which branch is taken.
\<close>

definition Submit :: "WorkerPool \<Rightarrow> Job \<Rightarrow> error option \<times> WorkerPool" where
  "Submit wp job =
     (if length (jobQueue wp) < queueSize wp
      then (None, wp\<lparr>jobQueue := jobQueue wp @ [job]\<rparr>)
      else (Some ErrQueueFull, wp))"


section \<open>Metrics monitor\<close>

text \<open>
  A Go map read at a missing key yields zero: \<open>get0\<close>. Counters and durations are
  64-bit; sums wrap.
\<close>

definition get0 :: "(string \<rightharpoonup> int) \<Rightarrow> string \<Rightarrow> int" where
  "get0 m k = (case m k of Some v \<Rightarrow> v | None \<Rightarrow> 0)"

record Metrics =
  HTTPRequests :: int
  HTTPErrors :: int
  HTTPResponseTime :: int
  APIRequests :: "string \<rightharpoonup> int"
  APIErrors :: "string \<rightharpoonup> int"
  APIResponseTimes :: "string \<rightharpoonup> int"
  CacheHits :: int
  CacheMisses :: int
  CacheSize :: int
  MemoryUsage :: int
  GoroutineCount :: int
  GCPauseTime :: int
  WidgetLoadTimes :: "string \<rightharpoonup> int"
  WidgetErrors :: "string \<rightharpoonup> int"
  LastUpdated :: int

definition NewMonitor :: Metrics where
  "NewMonitor =
     \<lparr>HTTPRequests = 0, HTTPErrors = 0, HTTPResponseTime = 0,
      APIRequests = Map.empty, APIErrors = Map.empty, APIResponseTimes = Map.empty,
      CacheHits = 0, CacheMisses = 0, CacheSize = 0,
      MemoryUsage = 0, GoroutineCount = 0, GCPauseTime = 0,
      WidgetLoadTimes = Map.empty, WidgetErrors = Map.empty, LastUpdated = 0\<rparr>"


definition RecordAPIRequest :: "Metrics \<Rightarrow> string \<Rightarrow> int \<Rightarrow> bool \<Rightarrow> Metrics" where
  "RecordAPIRequest m service duration isError =
     (let m1 = (if get0 (APIRequests m) service = 0
                then m\<lparr>APIRequests := (APIRequests m)(service \<mapsto> 0),
                       APIErrors := (APIErrors m)(service \<mapsto> 0),
                       APIResponseTimes := (APIResponseTimes m)(service \<mapsto> 0)\<rparr>
                else m);
          m2 = m1\<lparr>APIRequests :=
                    (APIRequests m1)(service \<mapsto> wrap64 (get0 (APIRequests m1) service + 1))\<rparr>;
          m3 = (if isError
                then m2\<lparr>APIErrors :=
                          (APIErrors m2)(service \<mapsto> wrap64 (get0 (APIErrors m2) service + 1))\<rparr>
                else m2)
      in if get0 (APIRequests m3) service = 1
         then m3\<lparr>APIResponseTimes := (APIResponseTimes m3)(service \<mapsto> duration)\<rparr>
         else m3\<lparr>APIResponseTimes :=
                   (APIResponseTimes m3)(service \<mapsto>
                      go_div (wrap64 (get0 (APIResponseTimes m3) service + duration)) 2)\<rparr>)"


section \<open>Request dispatcher (service manager)\<close>

record APIResponse =
  StatusCode :: int
  Headers :: "(string \<times> string) list"
  Body :: string
  Duration :: int

text \<open>
  A client is what it answers: \<open>client n req\<close> is the outcome of its \<open>Request\<close> when
  \<open>n\<close> requests went through it before. A request either fails with an error and no
  response, or yields a response and no error, as \<open>BaseClient.Request\<close> does. The
  requests sent so far are a list of the registry keys they went through, oldest first.
\<close>

type_synonym 'q APIClient = "nat \<Rightarrow> 'q \<Rightarrow> error + APIResponse"

record APISourceConfig =
  BaseURL :: string
  RateLimit :: int
  Timeout :: int
  SourceHeaders :: "(string \<times> string) list"
  Token :: string
  Fallbacks :: "string list"

record Config =
  Region :: string
  APISources :: "string \<rightharpoonup> APISourceConfig"
  CacheCfg :: CacheConfig
  RateLimitCfg :: RateLimitConfig
  PerformanceCfg :: OptimizerConfig

record 'q ServiceManager =
  clients :: "string \<rightharpoonup> 'q APIClient"
  cache :: MemoryCache
  limiter :: TokenBucketLimiter
  sm_config :: Config
  monitor :: Metrics
  optimizer :: Optimizer

definition GetClient :: "'q ServiceManager \<Rightarrow> string \<Rightarrow> error + 'q APIClient" where
  "GetClient sm serviceName =
     (case clients sm serviceName of
        Some client \<Rightarrow> Inr client
      | None \<Rightarrow> Inl (ErrClientNotFound serviceName))"

definition client_Request ::
  "'q APIClient \<Rightarrow> string \<Rightarrow> string list \<Rightarrow> 'q \<Rightarrow> (error + APIResponse) \<times> string list" where
  "client_Request client key sent req = (client (count_list sent key) req, sent @ [key])"

text \<open>
  The function of the job, applied to the outcome of its request: \<open>nil\<close> when the
  request gave no error and a status below 400, else \<open>reqErr\<close> (which is \<open>nil\<close> as
  well when the request gave no error and a status of 400 or more).
\<close>

definition job_function :: "error + APIResponse \<Rightarrow> error option" where
  "job_function r =
     (let reqErr = (case r of Inl e \<Rightarrow> Some e | Inr resp \<Rightarrow> None)
      in if reqErr = None \<and> (case r of Inl e \<Rightarrow> False | Inr resp \<Rightarrow> StatusCode resp < 400)
         then None else reqErr)"

text \<open>The loop over the fallback chain: the response of the first success, if any.\<close>

fun try_fallbacks ::
  "'q ServiceManager \<Rightarrow> 'q \<Rightarrow> string list \<Rightarrow> string list \<Rightarrow> APIResponse option \<times> string list" where
  "try_fallbacks sm req sent [] = (None, sent)"
| "try_fallbacks sm req sent (fallback # rest) =
     (case GetClient sm fallback of
        Inl fallbackErr \<Rightarrow> try_fallbacks sm req sent rest
      | Inr fallbackClient \<Rightarrow>
          (case client_Request fallbackClient fallback sent req of
             (Inr resp, sent') \<Rightarrow> (Some resp, sent')
           | (Inl fallbackErr, sent') \<Rightarrow> try_fallbacks sm req sent' rest))"

text \<open>
  What the world contributes to one call: the two clock readings of the limiter, the
  duration the deferred function measures, the identifier the job gets, and which branch
  of the \<open>select\<close> fires: the job's result (a worker took the job off the queue and
  ran it, which sends the job's request) or the end of the caller's context with its
  error (what the job does after that is not part of the call).
\<close>

datatype await_event = JobResult | CtxDone error

record CallEnv =
  clock_created :: int
  clock_now :: int
  since_start :: int
  job_id :: string
  await :: await_event

text \<open>
  The body of \<open>RequestWithFallback\<close>. Besides the two results it returns the final
  content of the local variable \<open>err\<close>, which the deferred function reads: the
  \<open>Submit\<close> check declares an \<open>err\<close> of its own, and the two successful returns
  leave the variable as it is.
\<close>

definition RequestWithFallback_body ::
  "CallEnv \<Rightarrow> 'q ServiceManager \<Rightarrow> string list \<Rightarrow> string \<Rightarrow> 'q \<Rightarrow>
   APIResponse option \<times> error option \<times> error option \<times> 'q ServiceManager \<times> string list" where
  "RequestWithFallback_body env sm sent serviceName req =
     (case GetClient sm serviceName of
        Inl err \<Rightarrow> (None, Some err, Some err, sm, sent)
      | Inr client \<Rightarrow>
          (let (allowed, limiter') = Allow (limiter sm) (clock_created env) (clock_now env) serviceName;
               sm1 = sm\<lparr>limiter := limiter'\<rparr>
           in if \<not> allowed
              then (None, Some (ErrRateLimit serviceName), Some (ErrRateLimit serviceName), sm1, sent)
              else
                (let (pool, optimizer') = GetOrCreatePool (optimizer sm1) serviceName;
                     job = \<lparr>ID = job_id env\<rparr>;
                     (submitErr, pool') = Submit pool job;
                     sm2 = sm1\<lparr>optimizer := optimizer'\<lparr>pools := (pools optimizer')(serviceName \<mapsto> pool')\<rparr>\<rparr>
                 in case submitErr of
                      Some e \<Rightarrow> (None, Some e, None, sm2, sent)
                    | None \<Rightarrow>
                        (case await env of
                           CtxDone ctxErr \<Rightarrow> (None, Some ctxErr, Some ctxErr, sm2, sent)
                         | JobResult \<Rightarrow>
                             (let (r1, sent1) = client_Request client serviceName sent req;
                                  pool'' = pool'\<lparr>jobQueue := remove1 job (jobQueue pool')\<rparr>;
                                  sm3 = sm2\<lparr>optimizer :=
                                          (optimizer sm2)\<lparr>pools := (pools (optimizer sm2))(serviceName \<mapsto> pool'')\<rparr>\<rparr>
                              in case job_function r1 of
                                   None \<Rightarrow>
                                     (let (r2, sent2) = client_Request client serviceName sent1 req
                                      in (case r2 of Inl e \<Rightarrow> None | Inr resp \<Rightarrow> Some resp,
                                          None, None, sm3, sent2))
                                 | Some err \<Rightarrow>
                                     (case APISources (sm_config sm3) serviceName of
                                        Some cfg \<Rightarrow>
                                          (case try_fallbacks sm3 req sent1 (Fallbacks cfg) of
                                             (Some resp, sent2) \<Rightarrow> (Some resp, None, Some err, sm3, sent2)
                                           | (None, sent2) \<Rightarrow>
                                               (None, Some (ErrAllFailed serviceName), Some err, sm3, sent2))
                                      | None \<Rightarrow>
                                          (None, Some (ErrAllFailed serviceName), Some err, sm3, sent1)))))))"

text \<open>
  The whole call: the body, then the deferred function, which records the request under
  the requested service with the measured duration and the flag \<open>err != nil\<close>.
\<close>

definition RequestWithFallback ::
  "CallEnv \<Rightarrow> 'q ServiceManager \<Rightarrow> string list \<Rightarrow> string \<Rightarrow> 'q \<Rightarrow>
   APIResponse option \<times> error option \<times> 'q ServiceManager \<times> string list" where
  "RequestWithFallback env sm sent serviceName req =
     (let (resp, ret, err, sm', sent') = RequestWithFallback_body env sm sent serviceName req
      in (resp, ret,
          sm'\<lparr>monitor := RecordAPIRequest (monitor sm') serviceName (since_start env) (err \<noteq> None)\<rparr>,
          sent'))"

text \<open>
  Two notions of the statements below. A fallback name is registered when a client is
  known under it. The primary path succeeds when the client is known, the limiter admits
  the call, the \<open>select\<close> takes the job's result, and that result is \<open>nil\<close>.
\<close>

definition registered :: "'q ServiceManager \<Rightarrow> string \<Rightarrow> bool" where
  "registered sm name \<longleftrightarrow> clients sm name \<noteq> None"


text \<open>The pool a call for the service submits to: the registered one, else a new one.\<close>

definition pool_of :: "'q ServiceManager \<Rightarrow> string \<Rightarrow> WorkerPool" where
  "pool_of sm serviceName = fst (GetOrCreatePool (optimizer sm) serviceName)"


subsection \<open>A small installation\<close>

text \<open>
  A manager with four clients for requests without content: \<open>bilibili\<close>, whose
  requests time out; \<open>backup\<close>, which refuses; \<open>mirror\<close>, which answers 200; and
  \<open>flaky\<close>, which answers its first request and fails every later one. \<open>bilibili\<close>
  falls back to \<open>backup\<close>, then to \<open>mirror\<close>. The second manager is the same with the
  queue of the \<open>bilibili\<close> pool full.
\<close>

definition ok_response :: APIResponse where
  "ok_response = \<lparr>StatusCode = 200, Headers = [], Body = ''ok'', Duration = 1\<rparr>"

definition demo_manager :: "unit ServiceManager" where
  "demo_manager =
     \<lparr>clients = [''bilibili'' \<mapsto> (\<lambda>n req. Inl (ErrRequest ''timeout'')),
                 ''backup'' \<mapsto> (\<lambda>n req. Inl (ErrRequest ''refused'')),
                 ''mirror'' \<mapsto> (\<lambda>n req. Inr ok_response),
                 ''flaky'' \<mapsto> (\<lambda>n req. if n = 0 then Inr ok_response else Inl (ErrRequest ''reset''))],
      cache = NewMemoryCache \<lparr>CacheType = ''memory'', TTL = 0, MaxSize = 0, RedisURL = []\<rparr>,
      limiter = NewRateLimiter \<lparr>DefaultLimit = 60, Services = Map.empty, Window = 0\<rparr>,
      sm_config =
        \<lparr>Region = ''cn'',
         APISources = [''bilibili'' \<mapsto>
           \<lparr>BaseURL = ''https://api.bilibili.com'', RateLimit = 60, Timeout = 0, SourceHeaders = [],
            Token = [], Fallbacks = [''backup'', ''mirror'']\<rparr>],
         CacheCfg = \<lparr>CacheType = ''memory'', TTL = 0, MaxSize = 0, RedisURL = []\<rparr>,
         RateLimitCfg = \<lparr>DefaultLimit = 60, Services = Map.empty, Window = 0\<rparr>,
         PerformanceCfg = \<lparr>MaxWorkers = 2, WorkerIdleTimeout = 0, QueueSize = 1, GCPercent = 0,
                           MaxMemoryMB = 0\<rparr>\<rparr>,
      monitor = NewMonitor,
      optimizer = NewOptimizer 1 \<lparr>MaxWorkers = 2, WorkerIdleTimeout = 0, QueueSize = 1, GCPercent = 0,
                                   MaxMemoryMB = 0\<rparr>\<rparr>"

definition busy_manager :: "unit ServiceManager" where
  "busy_manager =
     demo_manager\<lparr>optimizer :=
       (optimizer demo_manager)\<lparr>pools :=
          [''bilibili'' \<mapsto> \<lparr>pool_name = ''bilibili'', jobQueue = [\<lparr>ID = ''bilibili-1''\<rparr>],
                                queueSize = 1, maxWorkers = 2\<rparr>]\<rparr>\<rparr>"

definition demo_env :: CallEnv where
  "demo_env = \<lparr>clock_created = 0, clock_now = 0, since_start = 7, job_id = ''bilibili-2'',
                await = JobResult\<rparr>"

section \<open>Properties of the rate limiter\<close>

lemma wrap64_id: "- 9223372036854775808 \<le> x \<Longrightarrow> x < 9223372036854775808 \<Longrightarrow> wrap64 x = x"
  by (simp add: wrap64_def)

lemma time_Sub_bounds: "- 9223372036854775808 \<le> time_Sub t u \<and> time_Sub t u \<le> 9223372036854775807"
  by (simp add: time_Sub_def maxDuration_def minDuration_def Let_def)

lemma time_Sub_small: "u \<le> t \<Longrightarrow> t < u + 60000000000 \<Longrightarrow> time_Sub t u = t - u"
  by (simp add: time_Sub_def maxDuration_def minDuration_def Let_def)

lemma Minutes_int_bounds:
  "- 9223372036854775808 \<le> d \<Longrightarrow> d \<le> 9223372036854775807 \<Longrightarrow>
   - 153722867 \<le> Minutes_int d \<and> Minutes_int d \<le> 153722867"
  unfolding Minutes_int_def by (auto; linarith?)

lemma refill_window:
  assumes "lastRefill b \<le> now" "now < lastRefill b + 60000000000"
  shows "refill now b = b"
proof -
  have "Minutes_int (time_Sub now (lastRefill b)) = 0"
    using assms by (simp add: time_Sub_small Minutes_int_def)
  then show ?thesis by (simp add: refill_def wrap64_def)
qed

lemma consume_window:
  assumes "lastRefill b \<le> now" "now < lastRefill b + 60000000000"
  shows "consume now b = (if 0 < tokens b then (True, b\<lparr>tokens := tokens b - 1\<rparr>) else (False, b))"
  using refill_window [OF assms] by (simp add: consume_def)

lemma Allow_existing:
  "buckets t service = Some b \<Longrightarrow>
   Allow t created now service =
     (fst (consume now b), t\<lparr>buckets := (buckets t)(service \<mapsto> snd (consume now b))\<rparr>)"
  by (simp add: Allow_def split: prod.splits)




lemma refill_upper: "tokens b \<le> capacity b \<Longrightarrow> tokens (refill now b) \<le> capacity (refill now b)"
  by (simp add: refill_def Let_def)

lemma consume_upper: "tokens b \<le> capacity b \<Longrightarrow> tokens (snd (consume now b)) \<le> capacity (snd (consume now b))"
  using refill_upper [of b now] by (simp add: consume_def Let_def)

lemma refill_ok:
  assumes "bucket_ok b"
  shows "bucket_ok (refill now b)"
proof -
  let ?m = "Minutes_int (time_Sub now (lastRefill b))"
  let ?c = "capacity b"
  have c0: "0 \<le> ?c" and tk: "0 \<le> tokens b" "tokens b \<le> ?c" and rr: "refillRate b = ?c"
    and big: "?c * 153722868 < 9223372036854775808"
    using assms by (auto simp: bucket_ok_def)
  have mb: "- 153722867 \<le> ?m" "?m \<le> 153722867"
    using Minutes_int_bounds [of "time_Sub now (lastRefill b)"] time_Sub_bounds [of now "lastRefill b"]
    by auto
  have up: "?m * ?c \<le> 153722867 * ?c" using mb(2) c0 by (rule mult_right_mono)
  have lo: "- 153722867 * ?c \<le> ?m * ?c" using mb(1) c0 by (rule mult_right_mono)
  have w1: "wrap64 (?m * ?c) = ?m * ?c"
    using up lo big c0 by (intro wrap64_id) linarith+
  show ?thesis
  proof (cases "0 < ?m * ?c")
    case True
    have "wrap64 (tokens b + ?m * ?c) = tokens b + ?m * ?c"
      using up big tk True by (intro wrap64_id) linarith+
    then show ?thesis
      using True w1 tk c0 rr big by (simp add: refill_def Let_def bucket_ok_def)
  next
    case False
    then show ?thesis using w1 rr assms by (simp add: refill_def Let_def)
  qed
qed

lemma consume_ok: "bucket_ok b \<Longrightarrow> bucket_ok (snd (consume now b))"
  using refill_ok [of b now] by (auto simp: consume_def Let_def bucket_ok_def)

lemma Allow_fresh:
  "buckets t service = None \<Longrightarrow>
   Allow t created now service =
     (let limit = limit_of (config t) service;
          r = consume now \<lparr>tokens = limit, capacity = limit, refillRate = limit, lastRefill = created\<rparr>
      in (fst r, t\<lparr>buckets := (buckets t)(service \<mapsto> snd r)\<rparr>))"
  by (simp add: Allow_def Let_def case_prod_beta)



lemma Allow_config: "config (snd (Allow t c n s)) = config t"
  by (simp add: Allow_def case_prod_beta Let_def)

lemma Reset_config: "config (Reset t n s) = config t"
  by (simp add: Reset_def split: option.splits)

lemma limiter_step_config: "config (limiter_step t op) = config t"
  by (cases op) (simp_all add: Allow_config Reset_config)

lemma Allow_buckets_other: "s \<noteq> service \<Longrightarrow> buckets (snd (Allow t c n s)) service = buckets t service"
  by (simp add: Allow_def case_prod_beta Let_def)

lemma Allow_buckets_same:
  "buckets (snd (Allow t c n s)) s =
     Some (snd (consume n (case buckets t s of
                             Some b \<Rightarrow> b
                           | None \<Rightarrow> \<lparr>tokens = limit_of (config t) s, capacity = limit_of (config t) s,
                                       refillRate = limit_of (config t) s, lastRefill = c\<rparr>)))"
  by (simp add: Allow_def case_prod_beta Let_def split: option.splits)

lemma Reset_buckets_other: "s \<noteq> service \<Longrightarrow> buckets (Reset t n s) service = buckets t service"
  by (simp add: Reset_def split: option.splits)

lemma Reset_buckets_same:
  "buckets (Reset t n s) s = map_option (\<lambda>b. b\<lparr>tokens := capacity b, lastRefill := n\<rparr>) (buckets t s)"
  by (simp add: Reset_def split: option.splits)

lemma limiter_step_upper:
  assumes "\<forall>b. buckets t service = Some b \<longrightarrow> tokens b \<le> capacity b"
  shows "\<forall>b. buckets (limiter_step t op) service = Some b \<longrightarrow> tokens b \<le> capacity b"
proof (cases op)
  case (OpAllow s c n)
  show ?thesis
  proof (cases "s = service")
    case True
    let ?b0 = "case buckets t s of
                 Some b \<Rightarrow> b
               | None \<Rightarrow> \<lparr>tokens = limit_of (config t) s, capacity = limit_of (config t) s,
                           refillRate = limit_of (config t) s, lastRefill = c\<rparr>"
    have "tokens ?b0 \<le> capacity ?b0"
      using assms True by (cases "buckets t s") simp_all
    then have "tokens (snd (consume n ?b0)) \<le> capacity (snd (consume n ?b0))"
      by (rule consume_upper)
    moreover have "buckets (limiter_step t op) service = Some (snd (consume n ?b0))"
      using OpAllow True by (simp only: limiter_step.simps Allow_buckets_same)
    ultimately show ?thesis by simp
  next
    case False
    then show ?thesis using OpAllow assms by (simp add: Allow_buckets_other)
  qed
next
  case (OpReset s n)
  show ?thesis
  proof (cases "s = service")
    case True
    then show ?thesis using OpReset Reset_buckets_same [of t n s] by (cases "buckets t s") auto
  next
    case False
    then show ?thesis using OpReset assms by (simp add: Reset_buckets_other)
  qed
qed

lemma limiter_step_ok:
  assumes inv: "\<forall>b. buckets t service = Some b \<longrightarrow> bucket_ok b"
    and l0: "0 \<le> limit_of (config t) service"
    and l1: "limit_of (config t) service * 153722868 < 9223372036854775808"
  shows "\<forall>b. buckets (limiter_step t op) service = Some b \<longrightarrow> bucket_ok b"
proof (cases op)
  case (OpAllow s c n)
  show ?thesis
  proof (cases "s = service")
    case True
    let ?b0 = "case buckets t s of
                 Some b \<Rightarrow> b
               | None \<Rightarrow> \<lparr>tokens = limit_of (config t) s, capacity = limit_of (config t) s,
                           refillRate = limit_of (config t) s, lastRefill = c\<rparr>"
    have "bucket_ok ?b0"
      using inv l0 l1 True by (cases "buckets t s") (simp_all add: bucket_ok_def)
    then have "bucket_ok (snd (consume n ?b0))"
      by (rule consume_ok)
    moreover have "buckets (limiter_step t op) service = Some (snd (consume n ?b0))"
      using OpAllow True by (simp only: limiter_step.simps Allow_buckets_same)
    ultimately show ?thesis by simp
  next
    case False
    then show ?thesis using OpAllow inv by (simp add: Allow_buckets_other)
  qed
next
  case (OpReset s n)
  show ?thesis
  proof (cases "s = service")
    case True
    then show ?thesis using OpReset inv Reset_buckets_same [of t n s]
      by (cases "buckets t s") (auto simp: bucket_ok_def)
  next
    case False
    then show ?thesis using OpReset inv by (simp add: Reset_buckets_other)
  qed
qed

lemma limiter_run_upper:
  "\<forall>b. buckets t service = Some b \<longrightarrow> tokens b \<le> capacity b \<Longrightarrow>
   \<forall>b. buckets (limiter_run t ops) service = Some b \<longrightarrow> tokens b \<le> capacity b"
  unfolding limiter_run_def
proof (induction ops arbitrary: t)
  case Nil
  then show ?case by simp
next
  case (Cons op ops)
  show ?case using Cons.IH [OF limiter_step_upper [OF Cons.prems]] by simp
qed

lemma limiter_run_ok:
  "\<forall>b. buckets t service = Some b \<longrightarrow> bucket_ok b \<Longrightarrow>
   0 \<le> limit_of (config t) service \<Longrightarrow>
   limit_of (config t) service * 153722868 < 9223372036854775808 \<Longrightarrow>
   \<forall>b. buckets (limiter_run t ops) service = Some b \<longrightarrow> bucket_ok b"
  unfolding limiter_run_def
proof (induction ops arbitrary: t)
  case Nil
  then show ?case by simp
next
  case (Cons op ops)
  have a: "\<forall>b. buckets (limiter_step t op) service = Some b \<longrightarrow> bucket_ok b"
    using limiter_step_ok [OF Cons.prems] .
  have b: "0 \<le> limit_of (config (limiter_step t op)) service"
    using Cons.prems(2) by (simp only: limiter_step_config)
  have c: "limit_of (config (limiter_step t op)) service * 153722868 < 9223372036854775808"
    using Cons.prems(3) by (simp only: limiter_step_config)
  show ?case using Cons.IH [OF a b c] by (simp only: foldl_Cons)
qed

text \<open>
  Claim C6, as amended. After any sequence of \<open>Allow\<close> and \<open>Reset\<close> calls on a new
  limiter, every bucket has \<open>tokens \<le> capacity\<close>; and \<open>0 \<le> tokens\<close> holds for the
  bucket of every service whose configured limit \<open>L\<close> is not negative and small enough
  for the refill arithmetic to stay within 64 bits (\<open>L * 153722868 < 2 ^ 63\<close>).
\<close>

theorem token_bucket_invariant:
  assumes run: "limiter_run (NewRateLimiter cfg) ops = t" and lk: "buckets t service = Some b"
  shows "tokens b \<le> capacity b \<and>
         (0 \<le> limit_of (config (NewRateLimiter cfg)) service \<and>
          limit_of (config (NewRateLimiter cfg)) service * 153722868 < 9223372036854775808
          \<longrightarrow> 0 \<le> tokens b)"
proof
  have "\<forall>b. buckets (NewRateLimiter cfg) service = Some b \<longrightarrow> tokens b \<le> capacity b"
    by (simp add: NewRateLimiter_def Let_def)
  from limiter_run_upper [OF this, of ops] show "tokens b \<le> capacity b"
    using run lk by simp
next
  show "0 \<le> limit_of (config (NewRateLimiter cfg)) service \<and>
        limit_of (config (NewRateLimiter cfg)) service * 153722868 < 9223372036854775808
        \<longrightarrow> 0 \<le> tokens b"
  proof
    assume a: "0 \<le> limit_of (config (NewRateLimiter cfg)) service \<and>
        limit_of (config (NewRateLimiter cfg)) service * 153722868 < 9223372036854775808"
    have e: "\<forall>b. buckets (NewRateLimiter cfg) service = Some b \<longrightarrow> bucket_ok b"
      by (simp add: NewRateLimiter_def Let_def)
    from limiter_run_ok [OF e conjunct1 [OF a] conjunct2 [OF a], of ops]
    have "bucket_ok b" using run lk by simp
    then show "0 \<le> tokens b" by (simp add: bucket_ok_def)
  qed
qed

text \<open>A run with a creation, a reset and a second admission, at limit 2.\<close>

lemma run_example:
  "limiter_run (NewRateLimiter \<lparr>DefaultLimit = 2, Services = Map.empty, Window = 0\<rparr>)
       [OpAllow ''zhihu'' 0 0, OpReset ''zhihu'' 5, OpAllow ''zhihu'' 5 6] =
     \<lparr>buckets = [''zhihu'' \<mapsto> \<lparr>tokens = 1, capacity = 2, refillRate = 2, lastRefill = 5\<rparr>],
      config = \<lparr>DefaultLimit = 2, Services = Map.empty, Window = 60000000000\<rparr>\<rparr>"
proof -
  let ?t0 = "NewRateLimiter \<lparr>DefaultLimit = 2, Services = Map.empty, Window = 0\<rparr>"
  let ?c = "\<lparr>DefaultLimit = 2, Services = Map.empty, Window = 60000000000\<rparr>"
  let ?t1 = "\<lparr>buckets = [''zhihu'' \<mapsto> \<lparr>tokens = 1, capacity = 2, refillRate = 2, lastRefill = 0\<rparr>], config = ?c\<rparr>"
  let ?t2 = "\<lparr>buckets = [''zhihu'' \<mapsto> \<lparr>tokens = 2, capacity = 2, refillRate = 2, lastRefill = 5\<rparr>], config = ?c\<rparr>"
  let ?t3 = "\<lparr>buckets = [''zhihu'' \<mapsto> \<lparr>tokens = 1, capacity = 2, refillRate = 2, lastRefill = 5\<rparr>], config = ?c\<rparr>"
  have t0: "?t0 = \<lparr>buckets = Map.empty, config = ?c\<rparr>" by (simp add: NewRateLimiter_def)
  have s1: "snd (Allow ?t0 0 0 ''zhihu'') = ?t1"
    unfolding t0 by (simp add: Allow_fresh limit_of_def consume_window)
  have s2: "Reset ?t1 5 ''zhihu'' = ?t2"
    by (simp add: Reset_def)
  have s3: "snd (Allow ?t2 5 6 ''zhihu'') = ?t3"
    by (simp add: Allow_existing consume_window)
  show ?thesis
    by (simp only: limiter_run_def foldl_Cons foldl_Nil limiter_step.simps s1 s2 s3)
qed

theorem token_bucket_invariant_witness:
  "limiter_run (NewRateLimiter \<lparr>DefaultLimit = 2, Services = Map.empty, Window = 0\<rparr>)
       [OpAllow ''zhihu'' 0 0, OpReset ''zhihu'' 5, OpAllow ''zhihu'' 5 6] =
     \<lparr>buckets = [''zhihu'' \<mapsto> \<lparr>tokens = 1, capacity = 2, refillRate = 2, lastRefill = 5\<rparr>],
      config = \<lparr>DefaultLimit = 2, Services = Map.empty, Window = 60000000000\<rparr>\<rparr> \<and>
   tokens \<lparr>tokens = 1, capacity = 2, refillRate = 2, lastRefill = 5\<rparr>
     \<le> capacity \<lparr>tokens = 1, capacity = 2, refillRate = 2, lastRefill = 5\<rparr> \<and>
   0 \<le> limit_of (config (NewRateLimiter \<lparr>DefaultLimit = 2, Services = Map.empty, Window = 0\<rparr>)) ''zhihu'' \<and>
   limit_of (config (NewRateLimiter \<lparr>DefaultLimit = 2, Services = Map.empty, Window = 0\<rparr>)) ''zhihu''
     * 153722868 < 9223372036854775808 \<and>
   0 \<le> tokens \<lparr>tokens = 1, capacity = 2, refillRate = 2, lastRefill = 5\<rparr>"
proof -
  let ?cfg = "\<lparr>DefaultLimit = 2, Services = Map.empty, Window = 0\<rparr>"
  let ?b = "\<lparr>tokens = 1, capacity = 2, refillRate = 2, lastRefill = 5\<rparr>"
  let ?t = "\<lparr>buckets = [''zhihu'' \<mapsto> ?b],
      config = \<lparr>DefaultLimit = 2, Services = Map.empty, Window = 60000000000\<rparr>\<rparr>"
  have lk: "buckets ?t ''zhihu'' = Some ?b" by simp
  have lim: "0 \<le> limit_of (config (NewRateLimiter ?cfg)) ''zhihu'' \<and>
             limit_of (config (NewRateLimiter ?cfg)) ''zhihu'' * 153722868 < 9223372036854775808"
    by (simp add: NewRateLimiter_def limit_of_def)
  from token_bucket_invariant [OF run_example lk]
  have "tokens ?b \<le> capacity ?b \<and> 0 \<le> tokens ?b" using lim by blast
  then show ?thesis using run_example lim by blast
qed

text \<open>
  Claim C6 as stated fails for a negative configured limit: the bucket is created with
  \<open>tokens = capacity = - 1\<close>, and the first \<open>Allow\<close> leaves it so.
\<close>

theorem token_bucket_invariant_counterexample:
  "map_option tokens
     (buckets (limiter_run (NewRateLimiter \<lparr>DefaultLimit = 60, Services = [''weibo'' \<mapsto> - 1], Window = 0\<rparr>)
                 [OpAllow ''weibo'' 0 0]) ''weibo'') = Some (- 1)"
proof -
  let ?t0 = "NewRateLimiter \<lparr>DefaultLimit = 60, Services = [''weibo'' \<mapsto> - 1], Window = 0\<rparr>"
  have fresh: "buckets ?t0 ''weibo'' = None" by (simp add: NewRateLimiter_def)
  have lim: "limit_of (config ?t0) ''weibo'' = - 1" by (simp add: NewRateLimiter_def limit_of_def)
  have "snd (consume 0 \<lparr>tokens = - 1, capacity = - 1, refillRate = - 1, lastRefill = 0\<rparr>)
          = \<lparr>tokens = - 1, capacity = - 1, refillRate = - 1, lastRefill = 0\<rparr>"
    by (simp add: consume_window)
  then show ?thesis
    by (simp add: limiter_run_def Allow_fresh [OF fresh] lim Let_def)
qed

text \<open>
  Claim C10. \<open>Reset\<close> for a service without a bucket returns the limiter unchanged (no
  bucket is created), and the next \<open>Allow\<close> for that service creates the bucket full,
  at the configured limit, and consumes from it.
\<close>

theorem reset_absent_bucket:
  assumes "buckets t service = None"
  shows "Reset t at service = t \<and>
         Allow (Reset t at service) created now service =
           (fst (consume now \<lparr>tokens = limit_of (config t) service, capacity = limit_of (config t) service,
                               refillRate = limit_of (config t) service, lastRefill = created\<rparr>),
            t\<lparr>buckets := (buckets t)(service \<mapsto>
                 snd (consume now \<lparr>tokens = limit_of (config t) service,
                                    capacity = limit_of (config t) service,
                                    refillRate = limit_of (config t) service, lastRefill = created\<rparr>))\<rparr>)"
proof -
  have r: "Reset t at service = t" using assms by (simp add: Reset_def)
  show ?thesis unfolding r using assms by (simp add: Allow_fresh Let_def)
qed

text \<open>The theorem on a new limiter with default limit 3.\<close>

theorem reset_absent_bucket_witness:
  "Reset (NewRateLimiter \<lparr>DefaultLimit = 3, Services = Map.empty, Window = 0\<rparr>) 7 ''gitee'' =
     NewRateLimiter \<lparr>DefaultLimit = 3, Services = Map.empty, Window = 0\<rparr> \<and>
   fst (Allow (Reset (NewRateLimiter \<lparr>DefaultLimit = 3, Services = Map.empty, Window = 0\<rparr>) 7 ''gitee'')
          8 9 ''gitee'') = True \<and>
   buckets (snd (Allow (Reset (NewRateLimiter \<lparr>DefaultLimit = 3, Services = Map.empty, Window = 0\<rparr>) 7 ''gitee'')
          8 9 ''gitee'')) ''gitee'' = Some \<lparr>tokens = 2, capacity = 3, refillRate = 3, lastRefill = 8\<rparr>"
proof -
  let ?t = "NewRateLimiter \<lparr>DefaultLimit = 3, Services = Map.empty, Window = 0\<rparr>"
  have h: "buckets ?t ''gitee'' = None" by (simp add: NewRateLimiter_def)
  have l: "limit_of (config ?t) ''gitee'' = 3" by (simp add: NewRateLimiter_def limit_of_def)
  have c: "consume 9 \<lparr>tokens = 3, capacity = 3, refillRate = 3, lastRefill = 8\<rparr>
             = (True, \<lparr>tokens = 2, capacity = 3, refillRate = 3, lastRefill = 8\<rparr>)"
    by (simp add: consume_window)
  note inst = reset_absent_bucket [OF h, of 7 8 9, unfolded l c]
  have "Allow (Reset ?t 7 ''gitee'') 8 9 ''gitee'' =
          (True, ?t\<lparr>buckets := (buckets ?t)(''gitee'' \<mapsto>
                     \<lparr>tokens = 2, capacity = 3, refillRate = 3, lastRefill = 8\<rparr>)\<rparr>)"
    using conjunct2 [OF inst] by simp
  then have "fst (Allow (Reset ?t 7 ''gitee'') 8 9 ''gitee'') = True \<and>
      buckets (snd (Allow (Reset ?t 7 ''gitee'') 8 9 ''gitee'')) ''gitee''
        = Some \<lparr>tokens = 2, capacity = 3, refillRate = 3, lastRefill = 8\<rparr>"
    by (simp only: fst_conv snd_conv) simp
  then show ?thesis using conjunct1 [OF inst] by blast
qed

section \<open>Properties of the worker pool\<close>





section \<open>Properties of the metrics monitor\<close>










section \<open>Properties of the cache store\<close>

lemma map_of_Delete_same: "map_of (data (Delete m key)) key = None"
  by (cases "map_of (data m) key") (simp_all add: Delete_def AList.delete_conv')

lemma map_of_Delete_other: "k \<noteq> key \<Longrightarrow> map_of (data (Delete m key)) k = map_of (data m) k"
  by (cases "map_of (data m) key") (simp_all add: Delete_def AList.delete_conv')

text \<open>
  Claim C3, as amended. A \<open>Get\<close> after the expiry of a stored entry removes the entry
  and its size from the accounting, leaves every other key alone, does not return the
  stored value, and reports the error \<open>cache expired\<close>; only a later \<open>Get\<close> on that
  key reports \<open>cache miss\<close>, the error of a key that was never stored.
\<close>

theorem cache_expired_get:
  assumes "map_of (data m) key = Some item" and "expiredAt item < now"
  shows "fst (Get unmarshal now m key) = Inl (ErrCacheExpired key) \<and>
         map_of (data (snd (Get unmarshal now m key))) key = None \<and>
         (\<forall>k. k \<noteq> key \<longrightarrow> map_of (data (snd (Get unmarshal now m key))) k = map_of (data m) k) \<and>
         currentSize (snd (Get unmarshal now m key)) = currentSize m - int (length (item_value item)) \<and>
         fst (Get unmarshal later (snd (Get unmarshal now m key)) key) = Inl (ErrCacheMiss key)"
proof -
  have g: "Get unmarshal now m key = (Inl (ErrCacheExpired key), Delete m key)"
    using assms by (simp add: Get_def)
  have s: "currentSize (Delete m key) = currentSize m - int (length (item_value item))"
    using assms(1) by (simp add: Delete_def)
  have again: "fst (Get unmarshal later (Delete m key) key) = Inl (ErrCacheMiss key)"
    by (simp add: Get_def map_of_Delete_same)
  show ?thesis
    unfolding g fst_conv snd_conv
    using s again by (simp add: map_of_Delete_same map_of_Delete_other)
qed

text \<open>A cache holding one entry that expires at time 5.\<close>

lemma stored_example:
  "snd (Set (\<lambda>xs. xs) Inr 0 (NewMemoryCache \<lparr>CacheType = ''memory'', TTL = 0, MaxSize = 0, RedisURL = []\<rparr>)
          ''feed'' ''[1]'' 5) =
     \<lparr>data = [(''feed'', \<lparr>item_value = ''[1]'', expiredAt = 5\<rparr>)], maxSize = 0, currentSize = 3\<rparr>"
  by (simp add: Set_def NewMemoryCache_def)

text \<open>The theorem on that cache, read at time 10.\<close>

theorem cache_expired_get_witness:
  "fst (Get (Inr :: string \<Rightarrow> string + string) 10
          \<lparr>data = [(''feed'', \<lparr>item_value = ''[1]'', expiredAt = 5\<rparr>)], maxSize = 0, currentSize = 3\<rparr>
          ''feed'') = Inl (ErrCacheExpired ''feed'') \<and>
   data (snd (Get (Inr :: string \<Rightarrow> string + string) 10
          \<lparr>data = [(''feed'', \<lparr>item_value = ''[1]'', expiredAt = 5\<rparr>)], maxSize = 0, currentSize = 3\<rparr>
          ''feed'')) = [] \<and>
   currentSize (snd (Get (Inr :: string \<Rightarrow> string + string) 10
          \<lparr>data = [(''feed'', \<lparr>item_value = ''[1]'', expiredAt = 5\<rparr>)], maxSize = 0, currentSize = 3\<rparr>
          ''feed'')) = 0"
proof -
  let ?m = "\<lparr>data = [(''feed'', \<lparr>item_value = ''[1]'', expiredAt = 5\<rparr>)], maxSize = 0, currentSize = 3\<rparr>"
  let ?item = "\<lparr>item_value = ''[1]'', expiredAt = 5\<rparr>"
  have h1: "map_of (data ?m) ''feed'' = Some ?item" by simp
  have h2: "expiredAt ?item < 10" by simp
  have d: "data (snd (Get (Inr :: string \<Rightarrow> string + string) 10 ?m ''feed'')) = []"
    by (simp add: Get_def Delete_def)
  from cache_expired_get [OF h1 h2, of "Inr :: string \<Rightarrow> string + string" 10]
  show ?thesis using d by simp
qed

text \<open>
  Claim C3 as stated fails: the expired read and the read of a key never stored return
  different errors, with different texts.
\<close>

theorem cache_expired_get_counterexample:
  "fst (Get (Inr :: string \<Rightarrow> string + string) 10
          (snd (Set (\<lambda>xs. xs) Inr 0
             (NewMemoryCache \<lparr>CacheType = ''memory'', TTL = 0, MaxSize = 0, RedisURL = []\<rparr>)
             ''feed'' ''[1]'' 5)) ''feed'') = Inl (ErrCacheExpired ''feed'') \<and>
   fst (Get (Inr :: string \<Rightarrow> string + string) 10
          (NewMemoryCache \<lparr>CacheType = ''memory'', TTL = 0, MaxSize = 0, RedisURL = []\<rparr>) ''feed'')
     = Inl (ErrCacheMiss ''feed'') \<and>
   cache_error_text (ErrCacheExpired ''feed'') = ''cache expired: feed'' \<and>
   cache_error_text (ErrCacheMiss ''feed'') = ''cache miss: feed''"
  unfolding stored_example
  by (simp add: Get_def NewMemoryCache_def)

lemma evict_fold_min:
  fixes xs :: "(string \<times> cacheItem) list"
  assumes "k0 \<noteq> []" and "[] \<notin> fst ` set xs"
  shows "\<exists>k t. foldl (\<lambda>(oldestKey, oldestTime) (key, item).
              if oldestKey = [] \<or> expiredAt item < oldestTime then (key, expiredAt item)
              else (oldestKey, oldestTime)) (k0, t0) xs = (k, t) \<and>
           k \<noteq> [] \<and> t \<le> t0 \<and> (\<forall>(k', item') \<in> set xs. t \<le> expiredAt item') \<and>
           ((k, t) = (k0, t0) \<or> (\<exists>item. (k, item) \<in> set xs \<and> expiredAt item = t))"
  using assms
proof (induction xs arbitrary: k0 t0)
  case Nil
  then show ?case by simp
next
  case (Cons x xs)
  obtain key item where x: "x = (key, item)" by (cases x)
  have key: "key \<noteq> []" and rest: "[] \<notin> fst ` set xs" using Cons.prems(2) x by auto
  show ?case
  proof (cases "expiredAt item < t0")
    case True
    from Cons.IH [OF key rest, of "expiredAt item"] obtain k t where
      r: "foldl (\<lambda>(oldestKey, oldestTime) (key, item).
              if oldestKey = [] \<or> expiredAt item < oldestTime then (key, expiredAt item)
              else (oldestKey, oldestTime)) (key, expiredAt item) xs = (k, t)"
      and p: "k \<noteq> []" "t \<le> expiredAt item" "\<forall>(k', item') \<in> set xs. t \<le> expiredAt item'"
        "(k, t) = (key, expiredAt item) \<or> (\<exists>item. (k, item) \<in> set xs \<and> expiredAt item = t)"
      by blast
    have "(k, t) = (k0, t0) \<or> (\<exists>it. (k, it) \<in> set (x # xs) \<and> expiredAt it = t)"
      using p(4) x by auto
    then show ?thesis
      using True r p(1,2,3) x Cons.prems(1) by (auto simp: x)
  next
    case False
    from Cons.IH [OF Cons.prems(1) rest, of t0] obtain k t where
      r: "foldl (\<lambda>(oldestKey, oldestTime) (key, item).
              if oldestKey = [] \<or> expiredAt item < oldestTime then (key, expiredAt item)
              else (oldestKey, oldestTime)) (k0, t0) xs = (k, t)"
      and p: "k \<noteq> []" "t \<le> t0" "\<forall>(k', item') \<in> set xs. t \<le> expiredAt item'"
        "(k, t) = (k0, t0) \<or> (\<exists>item. (k, item) \<in> set xs \<and> expiredAt item = t)"
      by blast
    have "(k, t) = (k0, t0) \<or> (\<exists>it. (k, it) \<in> set (x # xs) \<and> expiredAt it = t)"
      using p(4) by auto
    then show ?thesis
      using False r p(1,2,3) x Cons.prems(1) by (auto simp: x)
  qed
qed

lemma evict_scan_min:
  assumes "xs \<noteq> []" and "[] \<notin> fst ` set xs"
  shows "\<exists>k item. fst (evict_scan xs) = k \<and> k \<noteq> [] \<and> (k, item) \<in> set xs \<and>
           (\<forall>(k', item') \<in> set xs. expiredAt item \<le> expiredAt item')"
proof -
  obtain key item xs' where xs: "xs = (key, item) # xs'"
    using assms(1) by (cases xs) auto
  have key: "key \<noteq> []" and rest: "[] \<notin> fst ` set xs'" using assms(2) xs by auto
  from evict_fold_min [OF key rest, of "expiredAt item"] obtain k t where
    r: "foldl (\<lambda>(oldestKey, oldestTime) (key, item).
              if oldestKey = [] \<or> expiredAt item < oldestTime then (key, expiredAt item)
              else (oldestKey, oldestTime)) (key, expiredAt item) xs' = (k, t)"
    and p: "k \<noteq> []" "t \<le> expiredAt item" "\<forall>(k', item') \<in> set xs'. t \<le> expiredAt item'"
      "(k, t) = (key, expiredAt item) \<or> (\<exists>it. (k, it) \<in> set xs' \<and> expiredAt it = t)"
    by blast
  have scan: "evict_scan xs = (k, t)" using r by (simp add: evict_scan_def xs)
  from p(4) obtain it where it: "(k, it) \<in> set xs" "expiredAt it = t"
    using xs by auto
  have "\<forall>(k', item') \<in> set xs. expiredAt it \<le> expiredAt item'"
    using p(2,3) it(2) xs by auto
  then show ?thesis using scan p(1) it(1) by auto
qed

lemma length_delete_distinct:
  "distinct (map fst xs) \<Longrightarrow> (k, v) \<in> set xs \<Longrightarrow> Suc (length (AList.delete k xs)) = length xs"
proof (induction xs)
  case Nil
  then show ?case by simp
next
  case (Cons x xs)
  show ?case
  proof (cases "fst x = k")
    case True
    then have "k \<notin> fst ` set xs" using Cons.prems(1) by auto
    then have "AList.delete k xs = xs" by (simp add: AList.delete_eq filter_id_conv) force
    then show ?thesis using True by simp
  next
    case False
    then have "(k, v) \<in> set xs" using Cons.prems(2) by auto
    then show ?thesis using Cons.IH Cons.prems(1) False by simp
  qed
qed

lemma update_fresh: "k \<notin> fst ` set xs \<Longrightarrow> AList.update k v xs = xs @ [(k, v)]"
  by (induction xs) auto

lemma set_delete_subset: "set (AList.delete k xs) \<subseteq> set xs"
  by (auto simp: AList.delete_eq)

lemma evictLRU_uniform:
  assumes ro: "\<forall>xs. set (range_order xs) = set xs"
    and u: "uniform_cache s m" and ne: "data m \<noteq> []"
  shows "\<exists>k item. (k, item) \<in> set (data m) \<and>
           (\<forall>(k', item') \<in> set (data m). expiredAt item \<le> expiredAt item') \<and>
           evictLRU range_order m =
             m\<lparr>currentSize := currentSize m - int (length (item_value item)),
               data := AList.delete k (data m)\<rparr>"
proof -
  have d: "distinct (map fst (data m))" and nk: "[] \<notin> fst ` set (data m)"
    using u by (auto simp: uniform_cache_def)
  have s: "set (range_order (data m)) = set (data m)" using ro by blast
  have ne': "range_order (data m) \<noteq> []" using s ne by (metis set_empty)
  have nk': "[] \<notin> fst ` set (range_order (data m))" using nk s by simp
  from evict_scan_min [OF ne' nk'] obtain k item where
    k: "fst (evict_scan (range_order (data m))) = k" "k \<noteq> []" "(k, item) \<in> set (range_order (data m))"
      "\<forall>(k', item') \<in> set (range_order (data m)). expiredAt item \<le> expiredAt item'"
    by blast
  have mem: "(k, item) \<in> set (data m)" using k(3) s by simp
  have lk: "map_of (data m) k = Some item" using d mem by simp
  have "evictLRU range_order m =
          m\<lparr>currentSize := currentSize m - int (length (item_value item)),
            data := AList.delete k (data m)\<rparr>"
    using k(1,2) lk by (simp add: evictLRU_def Let_def)
  then show ?thesis using mem k(4) s by auto
qed

lemma Set_step:
  assumes ro: "\<forall>xs. set (range_order xs) = set xs"
    and u: "uniform_cache s m" and b: "currentSize m \<le> maxSize m + int s" and pos: "0 < maxSize m"
    and key: "key \<noteq> []" "key \<notin> fst ` set (data m)"
    and mv: "marshal v = Inr bytes" "length bytes = s"
  shows "uniform_cache s (snd (Set range_order marshal now m key v ttl)) \<and>
         currentSize (snd (Set range_order marshal now m key v ttl)) \<le> maxSize m + int s \<and>
         maxSize (snd (Set range_order marshal now m key v ttl)) = maxSize m \<and>
         fst ` set (data (snd (Set range_order marshal now m key v ttl))) \<subseteq> insert key (fst ` set (data m))"
proof -
  let ?item = "\<lparr>item_value = bytes, expiredAt = now + ttl\<rparr>"
  define m1 where "m1 = (if 0 < maxSize m \<and> maxSize m < currentSize m + int (length bytes)
                     then evictLRU range_order m else m)"
  have set_eq: "snd (Set range_order marshal now m key v ttl) =
      m1\<lparr>data := AList.update key ?item (data m1), currentSize := currentSize m1 + int (length bytes)\<rparr>"
    using mv(1) by (simp add: Set_def m1_def Let_def)
  have m1: "uniform_cache s m1 \<and> currentSize m1 + int s \<le> maxSize m + int s \<and> maxSize m1 = maxSize m \<and>
            set (data m1) \<subseteq> set (data m)"
  proof (cases "maxSize m < currentSize m + int s")
    case False
    then have "m1 = m" using mv(2) by (simp add: m1_def)
    then show ?thesis using u False by simp
  next
    case True
    show ?thesis
    proof (cases "data m = []")
      case True
      then have z: "currentSize m = 0" using u by (simp add: uniform_cache_def)
      have "evict_scan (range_order (data m)) = ([], 0)"
      proof -
        have "set (range_order (data m)) = {}" using ro True by simp
        then show ?thesis by (simp add: evict_scan_def)
      qed
      then have "evictLRU range_order m = m" by (simp add: evictLRU_def)
      then have "m1 = m" by (simp add: m1_def)
      then show ?thesis using u z pos by simp
    next
      case False
      from evictLRU_uniform [OF ro u False] obtain k item where
        k: "(k, item) \<in> set (data m)"
          "evictLRU range_order m =
             m\<lparr>currentSize := currentSize m - int (length (item_value item)),
               data := AList.delete k (data m)\<rparr>"
        by blast
      have len: "length (item_value item) = s" using u k(1) by (auto simp: uniform_cache_def)
      have d: "distinct (map fst (data m))" using u by (simp add: uniform_cache_def)
      have l: "Suc (length (AList.delete k (data m))) = length (data m)"
        using length_delete_distinct [OF d k(1)] .
      have m1_eq: "m1 = m\<lparr>currentSize := currentSize m - int s, data := AList.delete k (data m)\<rparr>"
        using True pos mv(2) k(2) len by (simp add: m1_def)
      have sub: "set (AList.delete k (data m)) \<subseteq> set (data m)" by (rule set_delete_subset)
      have u1: "uniform_cache s m1"
        unfolding m1_eq uniform_cache_def
      proof (intro conjI)
        show "distinct (map fst (data (m\<lparr>currentSize := currentSize m - int s, data := AList.delete k (data m)\<rparr>)))"
          using d by (simp add: AList.distinct_delete)
        show "[] \<notin> fst ` set (data (m\<lparr>currentSize := currentSize m - int s, data := AList.delete k (data m)\<rparr>))"
          using u sub by (auto simp: uniform_cache_def)
        show "\<forall>(k, item) \<in> set (data (m\<lparr>currentSize := currentSize m - int s, data := AList.delete k (data m)\<rparr>)).
                length (item_value item) = s"
          using u sub by (auto simp: uniform_cache_def)
        have "currentSize m = int s * int (length (data m))" using u by (simp add: uniform_cache_def)
        then have "currentSize m - int s = int s * int (length (AList.delete k (data m)))"
          using l [symmetric] by (simp add: algebra_simps)
        then show "currentSize (m\<lparr>currentSize := currentSize m - int s, data := AList.delete k (data m)\<rparr>) =
                int s * int (length (data (m\<lparr>currentSize := currentSize m - int s, data := AList.delete k (data m)\<rparr>)))"
          by simp
      qed
      show ?thesis using u1 b sub by (simp add: m1_eq)
    qed
  qed
  have fresh: "key \<notin> fst ` set (data m1)" using key(2) m1 by auto
  have upd: "AList.update key ?item (data m1) = data m1 @ [(key, ?item)]"
    using fresh by (rule update_fresh)
  have u2: "uniform_cache s (m1\<lparr>data := data m1 @ [(key, ?item)],
                                 currentSize := currentSize m1 + int (length bytes)\<rparr>)"
    using m1 fresh key(1) mv(2) by (auto simp: uniform_cache_def algebra_simps)
  show ?thesis
    unfolding set_eq upd using u2 m1 mv(2) by auto
qed

lemma Set_all_uniform:
  assumes ro: "\<forall>xs. set (range_order xs) = set xs"
  shows "uniform_cache s m \<Longrightarrow> currentSize m \<le> maxSize m + int s \<Longrightarrow> 0 < maxSize m \<Longrightarrow>
         distinct (map op_key ops) \<Longrightarrow>
         \<forall>(now, key, v, ttl) \<in> set ops.
            key \<noteq> [] \<and> key \<notin> fst ` set (data m) \<and> (\<exists>bytes. marshal v = Inr bytes \<and> length bytes = s) \<Longrightarrow>
         uniform_cache s (Set_all range_order marshal m ops) \<and>
         currentSize (Set_all range_order marshal m ops) \<le> maxSize m + int s \<and>
         maxSize (Set_all range_order marshal m ops) = maxSize m"
proof (induction ops arbitrary: m)
  case Nil
  then show ?case by simp
next
  case (Cons op ops)
  obtain now key v ttl where op: "op = (now, key, v, ttl)" by (cases op)
  from Cons.prems(5) op obtain bytes where
    key: "key \<noteq> []" "key \<notin> fst ` set (data m)" and mv: "marshal v = Inr bytes" "length bytes = s"
    by auto
  let ?m' = "snd (Set range_order marshal now m key v ttl)"
  have step: "uniform_cache s ?m' \<and> currentSize ?m' \<le> maxSize m + int s \<and> maxSize ?m' = maxSize m \<and>
         fst ` set (data ?m') \<subseteq> insert key (fst ` set (data m))"
    using ro Cons.prems(1,2,3) key mv by (rule Set_step)
  have u': "uniform_cache s ?m'" and b': "currentSize ?m' \<le> maxSize ?m' + int s"
    and p': "0 < maxSize ?m'" and mx: "maxSize ?m' = maxSize m"
    and keys: "fst ` set (data ?m') \<subseteq> insert key (fst ` set (data m))"
    using step Cons.prems(3) by simp_all
  have d': "distinct (map op_key ops)" using Cons.prems(4) by simp
  have notin: "key \<notin> op_key ` set ops"
    using Cons.prems(4) op by (simp add: op_key_def)
  have rest: "\<forall>(now, key, v, ttl) \<in> set ops.
            key \<noteq> [] \<and> key \<notin> fst ` set (data ?m') \<and> (\<exists>bytes. marshal v = Inr bytes \<and> length bytes = s)"
  proof (clarify, intro conjI)
    fix n k w t
    assume mem: "(n, k, w, t) \<in> set ops"
    then have a: "k \<noteq> [] \<and> k \<notin> fst ` set (data m) \<and> (\<exists>bytes. marshal w = Inr bytes \<and> length bytes = s)"
      using Cons.prems(5) by auto
    show "k \<noteq> []" using a by simp
    show "\<exists>bytes. marshal w = Inr bytes \<and> length bytes = s" using a by simp
    have "op_key (n, k, w, t) \<in> op_key ` set ops" using mem by (rule imageI)
    then have "k \<noteq> key" using notin by (auto simp: op_key_def)
    then show "k \<notin> fst ` set (data ?m')" using a keys by auto
  qed
  from Cons.IH [OF u' b' p' d' rest]
  show ?case using mx by (simp add: op)
qed

text \<open>
  Claim C4, as amended. With a positive capacity, after any sequence of \<open>Set\<close> calls on
  distinct, non-empty keys whose values all serialise to the same size \<open>s\<close>, started on
  a new cache, the accounted size is at most the capacity plus \<open>s\<close>, whatever the order
  in which the map is iterated. When a further insert would exceed the capacity and the
  cache is not empty, exactly one entry, one of earliest expiry, is removed before the
  insert.
\<close>

theorem cache_eviction_bound:
  assumes ro: "\<forall>xs. set (range_order xs) = set xs"
    and pos: "0 < MaxSize cfg"
    and dk: "distinct (map op_key ops)"
    and okv: "\<forall>(now, key, v, ttl) \<in> set ops.
                key \<noteq> [] \<and> (\<exists>bytes. marshal v = Inr bytes \<and> length bytes = s)"
    and M: "M = Set_all range_order marshal (NewMemoryCache cfg) ops"
  shows "currentSize M \<le> MaxSize cfg + int s \<and>
         (\<forall>now key v ttl bytes.
            marshal v = Inr bytes \<and> data M \<noteq> [] \<and> maxSize M < currentSize M + int (length bytes) \<longrightarrow>
            (\<exists>k item. (k, item) \<in> set (data M) \<and>
               (\<forall>(k', item') \<in> set (data M). expiredAt item \<le> expiredAt item') \<and>
               snd (Set range_order marshal now M key v ttl) =
                 M\<lparr>data := AList.update key \<lparr>item_value = bytes, expiredAt = now + ttl\<rparr>
                             (AList.delete k (data M)),
                   currentSize := currentSize M - int (length (item_value item)) + int (length bytes)\<rparr>))"
proof -
  let ?m0 = "NewMemoryCache cfg"
  have u0: "uniform_cache s ?m0" by (simp add: NewMemoryCache_def uniform_cache_def)
  have b0: "currentSize ?m0 \<le> maxSize ?m0 + int s" using pos by (simp add: NewMemoryCache_def)
  have p0: "0 < maxSize ?m0" using pos by (simp add: NewMemoryCache_def)
  have k0: "\<forall>(now, key, v, ttl) \<in> set ops.
            key \<noteq> [] \<and> key \<notin> fst ` set (data ?m0) \<and> (\<exists>bytes. marshal v = Inr bytes \<and> length bytes = s)"
    using okv by (auto simp: NewMemoryCache_def)
  from Set_all_uniform [OF ro u0 b0 p0 dk k0]
  have inv: "uniform_cache s M" "currentSize M \<le> MaxSize cfg + int s" "maxSize M = MaxSize cfg"
    unfolding M by (simp_all add: NewMemoryCache_def)
  have evict: "\<exists>k item. (k, item) \<in> set (data M) \<and>
               (\<forall>(k', item') \<in> set (data M). expiredAt item \<le> expiredAt item') \<and>
               snd (Set range_order marshal now M key v ttl) =
                 M\<lparr>data := AList.update key \<lparr>item_value = bytes, expiredAt = now + ttl\<rparr>
                             (AList.delete k (data M)),
                   currentSize := currentSize M - int (length (item_value item)) + int (length bytes)\<rparr>"
    if h: "marshal v = Inr bytes" "data M \<noteq> []" "maxSize M < currentSize M + int (length bytes)"
    for now key v ttl bytes
  proof -
    from evictLRU_uniform [OF ro inv(1) h(2)] obtain k item where
      k: "(k, item) \<in> set (data M)"
        "\<forall>(k', item') \<in> set (data M). expiredAt item \<le> expiredAt item'"
        "evictLRU range_order M =
           M\<lparr>currentSize := currentSize M - int (length (item_value item)),
             data := AList.delete k (data M)\<rparr>"
      by blast
    have "snd (Set range_order marshal now M key v ttl) =
                 M\<lparr>data := AList.update key \<lparr>item_value = bytes, expiredAt = now + ttl\<rparr>
                             (AList.delete k (data M)),
                   currentSize := currentSize M - int (length (item_value item)) + int (length bytes)\<rparr>"
      using h(1,3) inv(3) pos k(3) by (simp add: Set_def Let_def)
    then show ?thesis using k(1,2) by blast
  qed
  show ?thesis using inv(2) evict by blast
qed

text \<open>Three one-byte values into a cache of capacity 2: the entry expiring first goes.\<close>

lemma Set_all_example:
  "Set_all (\<lambda>xs. xs) Inr (NewMemoryCache \<lparr>CacheType = ''memory'', TTL = 0, MaxSize = 2, RedisURL = []\<rparr>)
     [(0, ''a'', ''1'', 10), (0, ''b'', ''2'', 5), (0, ''c'', ''3'', 7)] =
   \<lparr>data = [(''a'', \<lparr>item_value = ''1'', expiredAt = 10\<rparr>), (''c'', \<lparr>item_value = ''3'', expiredAt = 7\<rparr>)],
    maxSize = 2, currentSize = 2\<rparr>"
  by (simp add: Set_def NewMemoryCache_def evictLRU_def evict_scan_def Let_def)

text \<open>The theorem on that run, and on a fourth insert.\<close>

theorem cache_eviction_bound_witness:
  "currentSize
     (Set_all (\<lambda>xs. xs) Inr (NewMemoryCache \<lparr>CacheType = ''memory'', TTL = 0, MaxSize = 2, RedisURL = []\<rparr>)
        [(0, ''a'', ''1'', 10), (0, ''b'', ''2'', 5), (0, ''c'', ''3'', 7)]) \<le> 2 + int 1 \<and>
   (\<exists>k item.
      (k, item) \<in> set [(''a'', \<lparr>item_value = ''1'', expiredAt = 10\<rparr>), (''c'', \<lparr>item_value = ''3'', expiredAt = 7\<rparr>)] \<and>
      (\<forall>(k', item') \<in> set [(''a'', \<lparr>item_value = ''1'', expiredAt = 10\<rparr>),
                             (''c'', \<lparr>item_value = ''3'', expiredAt = 7\<rparr>)]. expiredAt item \<le> expiredAt item') \<and>
      currentSize (snd (Set (\<lambda>xs. xs) Inr 1
         \<lparr>data = [(''a'', \<lparr>item_value = ''1'', expiredAt = 10\<rparr>), (''c'', \<lparr>item_value = ''3'', expiredAt = 7\<rparr>)],
          maxSize = 2, currentSize = 2\<rparr> ''d'' ''4'' 9)) = 2 - int (length (item_value item)) + 1)"
proof -
  let ?cfg = "\<lparr>CacheType = ''memory'', TTL = 0, MaxSize = 2, RedisURL = []\<rparr>"
  let ?ops = "[(0::int, ''a'', ''1'', 10::int), (0, ''b'', ''2'', 5), (0, ''c'', ''3'', 7)]"
  let ?M = "\<lparr>data = [(''a'', \<lparr>item_value = ''1'', expiredAt = 10\<rparr>), (''c'', \<lparr>item_value = ''3'', expiredAt = 7\<rparr>)],
            maxSize = 2, currentSize = 2\<rparr>"
  have h1: "\<forall>xs :: (string \<times> cacheItem) list. set ((\<lambda>xs. xs) xs) = set xs" by simp
  have h2: "0 < MaxSize ?cfg" by simp
  have h3: "distinct (map op_key ?ops)" by (simp add: op_key_def)
  have h4: "\<forall>(now, key, v, ttl) \<in> set ?ops.
                key \<noteq> [] \<and> (\<exists>bytes. (Inr :: string \<Rightarrow> string + string) v = Inr bytes \<and> length bytes = 1)"
    by simp
  have h5: "?M = Set_all (\<lambda>xs. xs) Inr (NewMemoryCache ?cfg) ?ops"
    by (simp only: Set_all_example)
  note inst = cache_eviction_bound [OF h1 h2 h3 h4 h5]
  have pre: "(Inr :: string \<Rightarrow> string + string) ''4'' = Inr ''4'' \<and> data ?M \<noteq> [] \<and>
             maxSize ?M < currentSize ?M + int (length ''4'')"
    by simp
  from inst pre obtain k item where
    k: "(k, item) \<in> set (data ?M)"
      "\<forall>(k', item') \<in> set (data ?M). expiredAt item \<le> expiredAt item'"
      "snd (Set (\<lambda>xs. xs) Inr 1 ?M ''d'' ''4'' 9) =
         ?M\<lparr>data := AList.update ''d'' \<lparr>item_value = ''4'', expiredAt = 1 + 9\<rparr> (AList.delete k (data ?M)),
            currentSize := currentSize ?M - int (length (item_value item)) + int (length ''4'')\<rparr>"
    by blast
  have "currentSize (snd (Set (\<lambda>xs. xs) Inr 1 ?M ''d'' ''4'' 9)) = 2 - int (length (item_value item)) + 1"
    unfolding k(3) by simp
  moreover have "currentSize (Set_all (\<lambda>xs. xs) Inr (NewMemoryCache ?cfg) ?ops) \<le> 2 + int 1"
    using conjunct1 [OF inst] unfolding h5 [symmetric] by simp
  ultimately show ?thesis using k(1,2) by (intro conjI exI [of _ k] exI [of _ item]) simp_all
qed

text \<open>
  Claim C4 as stated fails when sizes differ: each three-byte insert evicts a one-byte
  entry, and the accounted size reaches 7 with capacity 3 and a pending insert of 3.
\<close>

theorem cache_eviction_bound_counterexample:
  "currentSize
     (Set_all (\<lambda>xs. xs) Inr (NewMemoryCache \<lparr>CacheType = ''memory'', TTL = 0, MaxSize = 3, RedisURL = []\<rparr>)
        [(0, ''a'', ''1'', 1), (0, ''b'', ''2'', 2), (0, ''c'', ''3'', 3),
         (0, ''x'', ''100'', 50), (0, ''y'', ''200'', 50)]) = 7 \<and>
   maxSize
     (Set_all (\<lambda>xs. xs) Inr (NewMemoryCache \<lparr>CacheType = ''memory'', TTL = 0, MaxSize = 3, RedisURL = []\<rparr>)
        [(0, ''a'', ''1'', 1), (0, ''b'', ''2'', 2), (0, ''c'', ''3'', 3),
         (0, ''x'', ''100'', 50), (0, ''y'', ''200'', 50)]) + int (length ''200'') = 6"
  by (simp add: Set_def NewMemoryCache_def evictLRU_def evict_scan_def Let_def)

section \<open>Properties of the request dispatcher\<close>

lemma try_fallbacks_clients:
  "clients sm' = clients sm \<Longrightarrow> try_fallbacks sm' req sent fbs = try_fallbacks sm req sent fbs"
  by (induction fbs arbitrary: sent) (auto simp: GetClient_def split: option.splits sum.splits prod.splits)

lemma try_fallbacks_limiter: "try_fallbacks (sm\<lparr>limiter := l\<rparr>) req sent fbs = try_fallbacks sm req sent fbs"
  by (rule try_fallbacks_clients) simp

lemma try_fallbacks_optimizer: "try_fallbacks (sm\<lparr>optimizer := opt\<rparr>) req sent fbs = try_fallbacks sm req sent fbs"
  by (rule try_fallbacks_clients) simp

lemma GetOrCreatePool_other:
  "name \<noteq> service \<Longrightarrow> pools (snd (GetOrCreatePool opt service)) name = pools opt name"
  by (simp add: GetOrCreatePool_def Let_def split: option.splits)




lemma body_job:
  assumes cl: "clients sm serviceName = Some client"
    and al: "fst (Allow (limiter sm) (clock_created env) (clock_now env) serviceName)"
    and room: "length (jobQueue (pool_of sm serviceName)) < queueSize (pool_of sm serviceName)"
    and ev: "await env = JobResult"
  shows "\<exists>sm3. clients sm3 = clients sm \<and> sm_config sm3 = sm_config sm \<and> monitor sm3 = monitor sm \<and>
           limiter sm3 = snd (Allow (limiter sm) (clock_created env) (clock_now env) serviceName) \<and>
           (\<forall>name. name \<noteq> serviceName \<longrightarrow> pools (optimizer sm3) name = pools (optimizer sm) name) \<and>
           pools (optimizer sm3) serviceName =
             Some ((pool_of sm serviceName)
                     \<lparr>jobQueue := remove1 \<lparr>ID = job_id env\<rparr>
                                      (jobQueue (pool_of sm serviceName) @ [\<lparr>ID = job_id env\<rparr>])\<rparr>) \<and>
           RequestWithFallback_body env sm sent serviceName req =
             (case job_function (client (count_list sent serviceName) req) of
                None \<Rightarrow>
                  (case client (Suc (count_list sent serviceName)) req of
                     Inl e \<Rightarrow> None | Inr resp \<Rightarrow> Some resp,
                   None, None, sm3, sent @ [serviceName, serviceName])
              | Some err \<Rightarrow>
                  (case APISources (sm_config sm) serviceName of
                     Some cfg \<Rightarrow>
                       (case try_fallbacks sm req (sent @ [serviceName]) (Fallbacks cfg) of
                          (Some resp, sent2) \<Rightarrow> (Some resp, None, Some err, sm3, sent2)
                        | (None, sent2) \<Rightarrow> (None, Some (ErrAllFailed serviceName), Some err, sm3, sent2))
                   | None \<Rightarrow> (None, Some (ErrAllFailed serviceName), Some err, sm3, sent @ [serviceName])))"
proof -
  let ?A = "Allow (limiter sm) (clock_created env) (clock_now env) serviceName"
  let ?G = "GetOrCreatePool (optimizer sm) serviceName"
  let ?job = "\<lparr>ID = job_id env\<rparr>"
  let ?pool' = "(fst ?G)\<lparr>jobQueue := jobQueue (fst ?G) @ [?job]\<rparr>"
  let ?pool'' = "?pool'\<lparr>jobQueue := remove1 ?job (jobQueue ?pool')\<rparr>"
  let ?sm3 = "sm\<lparr>limiter := snd ?A,
                  optimizer := (snd ?G)\<lparr>pools := (pools (snd ?G))(serviceName \<mapsto> ?pool'')\<rparr>\<rparr>"
  have sub: "Submit (fst ?G) ?job = (None, ?pool')"
    using room by (simp add: Submit_def pool_of_def)
  have body: "RequestWithFallback_body env sm sent serviceName req =
             (case job_function (client (count_list sent serviceName) req) of
                None \<Rightarrow>
                  (case client (Suc (count_list sent serviceName)) req of
                     Inl e \<Rightarrow> None | Inr resp \<Rightarrow> Some resp,
                   None, None, ?sm3, sent @ [serviceName, serviceName])
              | Some err \<Rightarrow>
                  (case APISources (sm_config sm) serviceName of
                     Some cfg \<Rightarrow>
                       (case try_fallbacks sm req (sent @ [serviceName]) (Fallbacks cfg) of
                          (Some resp, sent2) \<Rightarrow> (Some resp, None, Some err, ?sm3, sent2)
                        | (None, sent2) \<Rightarrow> (None, Some (ErrAllFailed serviceName), Some err, ?sm3, sent2))
                   | None \<Rightarrow> (None, Some (ErrAllFailed serviceName), Some err, ?sm3, sent @ [serviceName])))"
    using cl al ev sub
    by (simp add: RequestWithFallback_body_def GetClient_def case_prod_beta Let_def client_Request_def
        try_fallbacks_limiter try_fallbacks_optimizer split: option.splits)
  have other: "\<forall>name. name \<noteq> serviceName \<longrightarrow> pools (optimizer ?sm3) name = pools (optimizer sm) name"
    by (simp add: GetOrCreatePool_other)
  show ?thesis
    by (rule exI [of _ ?sm3]) (use body other in \<open>simp add: pool_of_def\<close>)
qed

lemma body_full:
  "clients sm serviceName = Some client \<Longrightarrow>
   fst (Allow (limiter sm) (clock_created env) (clock_now env) serviceName) \<Longrightarrow>
   \<not> length (jobQueue (pool_of sm serviceName)) < queueSize (pool_of sm serviceName) \<Longrightarrow>
   \<exists>sm2. monitor sm2 = monitor sm \<and>
     RequestWithFallback_body env sm sent serviceName req = (None, Some ErrQueueFull, None, sm2, sent)"
  by (simp add: RequestWithFallback_body_def GetClient_def case_prod_beta Let_def Submit_def pool_of_def)



lemma RequestWithFallback_parts:
  "fst (RequestWithFallback env sm sent serviceName req) =
     fst (RequestWithFallback_body env sm sent serviceName req)"
  "fst (snd (RequestWithFallback env sm sent serviceName req)) =
     fst (snd (RequestWithFallback_body env sm sent serviceName req))"
  "snd (snd (snd (RequestWithFallback env sm sent serviceName req))) =
     snd (snd (snd (snd (RequestWithFallback_body env sm sent serviceName req))))"
  "fst (snd (snd (RequestWithFallback env sm sent serviceName req))) =
     (fst (snd (snd (snd (RequestWithFallback_body env sm sent serviceName req)))))
       \<lparr>monitor := RecordAPIRequest
          (monitor (fst (snd (snd (snd (RequestWithFallback_body env sm sent serviceName req))))))
          serviceName (since_start env)
          (fst (snd (snd (RequestWithFallback_body env sm sent serviceName req))) \<noteq> None)\<rparr>"
  by (simp_all add: RequestWithFallback_def case_prod_beta)


lemma try_fallbacks_first_success:
  assumes "\<forall>i < length pre.
             \<forall>cl. clients sm (pre ! i) = Some cl \<longrightarrow>
                  isl (cl (count_list (sent @ filter (registered sm) (take i pre)) (pre ! i)) req)"
    and "clients sm c = Some cc"
    and "cc (count_list (sent @ filter (registered sm) pre) c) req = Inr respC"
  shows "try_fallbacks sm req sent (pre @ c # post) = (Some respC, sent @ filter (registered sm) pre @ [c])"
  using assms
proof (induction pre arbitrary: sent)
  case Nil
  then show ?case by (simp add: GetClient_def client_Request_def)
next
  case (Cons a pre)
  show ?case
  proof (cases "clients sm a")
    case None
    have reg: "\<not> registered sm a" using None by (simp add: registered_def)
    have tl: "\<forall>i < length pre.
             \<forall>cl. clients sm (pre ! i) = Some cl \<longrightarrow>
                  isl (cl (count_list (sent @ filter (registered sm) (take i pre)) (pre ! i)) req)"
    proof (intro allI impI)
      fix i cl' assume i: "i < length pre" and l: "clients sm (pre ! i) = Some cl'"
      from i have "Suc i < length (a # pre)" by simp
      from Cons.prems(1) [rule_format, OF this, of cl'] l reg
      show "isl (cl' (count_list (sent @ filter (registered sm) (take i pre)) (pre ! i)) req)"
        by simp
    qed
    have c: "cc (count_list (sent @ filter (registered sm) pre) c) req = Inr respC"
      using Cons.prems(3) reg by simp
    from Cons.IH [OF tl Cons.prems(2) c] show ?thesis
      using None reg by (simp add: GetClient_def)
  next
    case (Some cl)
    have reg: "registered sm a" using Some by (simp add: registered_def)
    have "0 < length (a # pre)" by simp
    from Cons.prems(1) [rule_format, OF this, of cl]
    have fail: "isl (cl (count_list sent a) req)" using Some by simp
    then obtain e where e: "cl (count_list sent a) req = Inl e" by (cases "cl (count_list sent a) req") auto
    have tl: "\<forall>i < length pre.
             \<forall>cl. clients sm (pre ! i) = Some cl \<longrightarrow>
                  isl (cl (count_list ((sent @ [a]) @ filter (registered sm) (take i pre)) (pre ! i)) req)"
    proof (intro allI impI)
      fix i cl' assume i: "i < length pre" and l: "clients sm (pre ! i) = Some cl'"
      from i have "Suc i < length (a # pre)" by simp
      from Cons.prems(1) [rule_format, OF this, of cl'] l reg
      show "isl (cl' (count_list ((sent @ [a]) @ filter (registered sm) (take i pre)) (pre ! i)) req)"
        by simp
    qed
    have c: "cc (count_list ((sent @ [a]) @ filter (registered sm) pre) c) req = Inr respC"
      using Cons.prems(3) reg by simp
    from Cons.IH [OF tl Cons.prems(2) c] show ?thesis
      using Some reg e by (simp add: GetClient_def client_Request_def)
  qed
qed

text \<open>
  Claim C2. Let the primary job fail with an error and the configured chain be
  \<open>pre @ c # post\<close>, where every registered name of \<open>pre\<close> fails when its turn comes
  and \<open>c\<close> is registered and succeeds at its turn. Then the call returns the response of
  \<open>c\<close> and no error; the requests sent are the primary's, then one for each registered
  name of \<open>pre\<close> in the declared order, then the one for \<open>c\<close>, and none for \<open>post\<close>; the
  limiter was asked once, for the primary service; and no pool but the primary's was
  touched.
\<close>

theorem fallback_order:
  assumes cl: "clients sm serviceName = Some client"
    and al: "fst (Allow (limiter sm) (clock_created env) (clock_now env) serviceName)"
    and room: "length (jobQueue (pool_of sm serviceName)) < queueSize (pool_of sm serviceName)"
    and ev: "await env = JobResult"
    and jerr: "job_function (client (count_list sent serviceName) req) = Some err"
    and cfg: "APISources (sm_config sm) serviceName = Some cfg"
    and chain: "Fallbacks cfg = pre @ c # post"
    and pre: "\<forall>i < length pre.
                \<forall>cl. clients sm (pre ! i) = Some cl \<longrightarrow>
                  isl (cl (count_list ((sent @ [serviceName]) @ filter (registered sm) (take i pre)) (pre ! i)) req)"
    and c: "clients sm c = Some cc"
      "cc (count_list ((sent @ [serviceName]) @ filter (registered sm) pre) c) req = Inr respC"
    and out: "out = RequestWithFallback env sm sent serviceName req"
  shows "fst out = Some respC \<and> fst (snd out) = None \<and>
         snd (snd (snd out)) = (sent @ [serviceName]) @ filter (registered sm) pre @ [c] \<and>
         limiter (fst (snd (snd out))) =
           snd (Allow (limiter sm) (clock_created env) (clock_now env) serviceName) \<and>
         (\<forall>name. name \<noteq> serviceName \<longrightarrow>
            pools (optimizer (fst (snd (snd out)))) name = pools (optimizer sm) name) \<and>
         pools (optimizer (fst (snd (snd out)))) serviceName =
           Some ((pool_of sm serviceName)
                   \<lparr>jobQueue := remove1 \<lparr>ID = job_id env\<rparr>
                                    (jobQueue (pool_of sm serviceName) @ [\<lparr>ID = job_id env\<rparr>])\<rparr>)"
proof -
  from body_job [OF cl al room ev, of sent req] obtain sm3 where
    s: "limiter sm3 = snd (Allow (limiter sm) (clock_created env) (clock_now env) serviceName)"
       "\<forall>name. name \<noteq> serviceName \<longrightarrow> pools (optimizer sm3) name = pools (optimizer sm) name"
       "pools (optimizer sm3) serviceName =
             Some ((pool_of sm serviceName)
                     \<lparr>jobQueue := remove1 \<lparr>ID = job_id env\<rparr>
                                      (jobQueue (pool_of sm serviceName) @ [\<lparr>ID = job_id env\<rparr>])\<rparr>)"
    and b: "RequestWithFallback_body env sm sent serviceName req =
             (case job_function (client (count_list sent serviceName) req) of
                None \<Rightarrow>
                  (case client (Suc (count_list sent serviceName)) req of
                     Inl e \<Rightarrow> None | Inr resp \<Rightarrow> Some resp,
                   None, None, sm3, sent @ [serviceName, serviceName])
              | Some err \<Rightarrow>
                  (case APISources (sm_config sm) serviceName of
                     Some cfg \<Rightarrow>
                       (case try_fallbacks sm req (sent @ [serviceName]) (Fallbacks cfg) of
                          (Some resp, sent2) \<Rightarrow> (Some resp, None, Some err, sm3, sent2)
                        | (None, sent2) \<Rightarrow> (None, Some (ErrAllFailed serviceName), Some err, sm3, sent2))
                   | None \<Rightarrow> (None, Some (ErrAllFailed serviceName), Some err, sm3, sent @ [serviceName])))"
    by blast
  have tf: "try_fallbacks sm req (sent @ [serviceName]) (Fallbacks cfg) =
              (Some respC, (sent @ [serviceName]) @ filter (registered sm) pre @ [c])"
    unfolding chain using pre c by (rule try_fallbacks_first_success)
  have body: "RequestWithFallback_body env sm sent serviceName req =
                (Some respC, None, Some err, sm3, (sent @ [serviceName]) @ filter (registered sm) pre @ [c])"
    unfolding b by (simp add: jerr cfg tf)
  show ?thesis
    unfolding out RequestWithFallback_parts body using s by simp
qed

text \<open>
  Claim C9. When the job reports success and the request issued again after it fails,
  the call returns neither a response nor an error.
\<close>

theorem nil_response_nil_error:
  assumes cl: "clients sm serviceName = Some client"
    and al: "fst (Allow (limiter sm) (clock_created env) (clock_now env) serviceName)"
    and room: "length (jobQueue (pool_of sm serviceName)) < queueSize (pool_of sm serviceName)"
    and ev: "await env = JobResult"
    and job: "job_function (client (count_list sent serviceName) req) = None"
    and again: "client (Suc (count_list sent serviceName)) req = Inl e"
  shows "fst (RequestWithFallback env sm sent serviceName req) = None \<and>
         fst (snd (RequestWithFallback env sm sent serviceName req)) = None"
proof -
  from body_job [OF cl al room ev, of sent req] obtain sm3 where
    b: "RequestWithFallback_body env sm sent serviceName req =
             (case job_function (client (count_list sent serviceName) req) of
                None \<Rightarrow>
                  (case client (Suc (count_list sent serviceName)) req of
                     Inl e \<Rightarrow> None | Inr resp \<Rightarrow> Some resp,
                   None, None, sm3, sent @ [serviceName, serviceName])
              | Some err \<Rightarrow>
                  (case APISources (sm_config sm) serviceName of
                     Some cfg \<Rightarrow>
                       (case try_fallbacks sm req (sent @ [serviceName]) (Fallbacks cfg) of
                          (Some resp, sent2) \<Rightarrow> (Some resp, None, Some err, sm3, sent2)
                        | (None, sent2) \<Rightarrow> (None, Some (ErrAllFailed serviceName), Some err, sm3, sent2))
                   | None \<Rightarrow> (None, Some (ErrAllFailed serviceName), Some err, sm3, sent @ [serviceName])))"
    by blast
  show ?thesis
    unfolding RequestWithFallback_parts b by (simp add: job again)
qed

subsection \<open>Calls on the small installation\<close>

lemma demo_clients:
  "clients demo_manager ''bilibili'' = Some (\<lambda>n req. Inl (ErrRequest ''timeout''))"
  "clients demo_manager ''backup'' = Some (\<lambda>n req. Inl (ErrRequest ''refused''))"
  "clients demo_manager ''mirror'' = Some (\<lambda>n req. Inr ok_response)"
  "clients demo_manager ''flaky'' =
     Some (\<lambda>n req. if n = 0 then Inr ok_response else Inl (ErrRequest ''reset''))"
  by (simp_all add: demo_manager_def)

lemma demo_allowed:
  "fst (Allow (limiter demo_manager) (clock_created demo_env) (clock_now demo_env) name)"
proof -
  have fresh: "buckets (limiter demo_manager) name = None"
    by (simp add: demo_manager_def NewRateLimiter_def)
  have lim: "limit_of (config (limiter demo_manager)) name = 60"
    by (simp add: demo_manager_def NewRateLimiter_def limit_of_def)
  have clk: "clock_created demo_env = 0" "clock_now demo_env = 0"
    by (simp_all add: demo_env_def)
  have "fst (consume 0 \<lparr>tokens = 60, capacity = 60, refillRate = 60, lastRefill = 0\<rparr>)"
    by (simp add: consume_window)
  then show ?thesis
    unfolding clk by (simp add: Allow_fresh [OF fresh] lim)
qed

lemma demo_room:
  "length (jobQueue (pool_of demo_manager name)) < queueSize (pool_of demo_manager name)"
  by (simp add: pool_of_def demo_manager_def GetOrCreatePool_def NewOptimizer_def NewWorkerPool_def Let_def)

lemma demo_await: "await demo_env = JobResult" "since_start demo_env = 7"
  by (simp_all add: demo_env_def)





text \<open>
  The queue-full rejection, which the amended claim leaves out: the call returns the
  queue-full error and its metric counts no error.
\<close>

lemma queue_full_recorded_as_success:
  "fst (snd (RequestWithFallback demo_env busy_manager [] ''bilibili'' ())) = Some ErrQueueFull \<and>
   get0 (APIRequests (monitor (fst (snd (snd (RequestWithFallback demo_env busy_manager []
          ''bilibili'' ())))))) ''bilibili'' = 1 \<and>
   get0 (APIErrors (monitor (fst (snd (snd (RequestWithFallback demo_env busy_manager []
          ''bilibili'' ())))))) ''bilibili'' = 0"
proof -
  have cl: "clients busy_manager ''bilibili'' = Some (\<lambda>n req. Inl (ErrRequest ''timeout''))"
    by (simp add: busy_manager_def demo_clients)
  have al: "fst (Allow (limiter busy_manager) (clock_created demo_env) (clock_now demo_env) ''bilibili'')"
    using demo_allowed [of "''bilibili''"] by (simp add: busy_manager_def)
  have full: "\<not> length (jobQueue (pool_of busy_manager ''bilibili'')) < queueSize (pool_of busy_manager ''bilibili'')"
    by (simp add: pool_of_def busy_manager_def GetOrCreatePool_def)
  from body_full [OF cl al full, of "[]" "()"] obtain sm2 where
    m: "monitor sm2 = monitor busy_manager"
    and b: "RequestWithFallback_body demo_env busy_manager [] ''bilibili'' () =
              (None, Some ErrQueueFull, None, sm2, [])"
    by blast
  have m0: "monitor busy_manager = NewMonitor" by (simp add: busy_manager_def demo_manager_def)
  show ?thesis
    unfolding RequestWithFallback_parts b
    by (simp add: m m0 RecordAPIRequest_def NewMonitor_def get0_def wrap64_def Let_def)
qed

text \<open>The theorem on the chain \<open>backup\<close>, \<open>mirror\<close> of \<open>bilibili\<close>.\<close>

theorem fallback_order_witness:
  "fst (RequestWithFallback demo_env demo_manager [] ''bilibili'' ()) = Some ok_response \<and>
   fst (snd (RequestWithFallback demo_env demo_manager [] ''bilibili'' ())) = None \<and>
   snd (snd (snd (RequestWithFallback demo_env demo_manager [] ''bilibili'' ()))) =
     [''bilibili'', ''backup'', ''mirror''] \<and>
   limiter (fst (snd (snd (RequestWithFallback demo_env demo_manager [] ''bilibili'' ())))) =
     snd (Allow (limiter demo_manager) 0 0 ''bilibili'') \<and>
   pools (optimizer (fst (snd (snd (RequestWithFallback demo_env demo_manager [] ''bilibili'' ())))))
     ''mirror'' = None"
proof -
  let ?cfg = "\<lparr>BaseURL = ''https://api.bilibili.com'', RateLimit = 60, Timeout = 0, SourceHeaders = [],
            Token = [], Fallbacks = [''backup'', ''mirror'']\<rparr>"
  have jerr: "job_function ((\<lambda>n req. Inl (ErrRequest ''timeout'')) (count_list [] ''bilibili'') ())
                = Some (ErrRequest ''timeout'')"
    by (simp add: job_function_def)
  have cfg: "APISources (sm_config demo_manager) ''bilibili'' = Some ?cfg"
    by (simp add: demo_manager_def)
  have chain: "Fallbacks ?cfg = [''backup''] @ ''mirror'' # []" by simp
  have pre: "\<forall>i < length [''backup''].
                \<forall>cl. clients demo_manager ([''backup''] ! i) = Some cl \<longrightarrow>
                  isl (cl (count_list (([] @ [''bilibili'']) @ filter (registered demo_manager) (take i [''backup'']))
                        ([''backup''] ! i)) ())"
    by (simp add: demo_clients)
  have c: "(\<lambda>n req. Inr ok_response)
             (count_list (([] @ [''bilibili'']) @ filter (registered demo_manager) [''backup'']) ''mirror'') ()
           = Inr ok_response"
    by simp
  note inst = fallback_order [OF demo_clients(1) demo_allowed demo_room demo_await(1) jerr cfg chain pre
      demo_clients(3) c refl]
  have reg: "filter (registered demo_manager) [''backup''] = [''backup'']"
    by (simp add: registered_def demo_clients)
  have other: "pools (optimizer demo_manager) ''mirror'' = None"
    by (simp add: demo_manager_def NewOptimizer_def Let_def)
  have clk: "clock_created demo_env = 0" "clock_now demo_env = 0" by (simp_all add: demo_env_def)
  show ?thesis
    using inst unfolding reg clk by (simp add: other)
qed

text \<open>The theorem on \<open>flaky\<close>, which answers once and then fails.\<close>

theorem nil_response_nil_error_witness:
  "fst (RequestWithFallback demo_env demo_manager [] ''flaky'' ()) = None \<and>
   fst (snd (RequestWithFallback demo_env demo_manager [] ''flaky'' ())) = None"
proof (rule nil_response_nil_error
    [where client = "\<lambda>n req. if n = 0 then Inr ok_response else Inl (ErrRequest ''reset'')"
       and e = "ErrRequest ''reset''"])
  show "clients demo_manager ''flaky'' =
          Some (\<lambda>n req. if n = 0 then Inr ok_response else Inl (ErrRequest ''reset''))"
    by (rule demo_clients(4))
  show "fst (Allow (limiter demo_manager) (clock_created demo_env) (clock_now demo_env) ''flaky'')"
    by (rule demo_allowed)
  show "length (jobQueue (pool_of demo_manager ''flaky'')) < queueSize (pool_of demo_manager ''flaky'')"
    by (rule demo_room)
  show "await demo_env = JobResult" by (rule demo_await(1))
  show "job_function (if count_list [] ''flaky'' = 0 then Inr ok_response else Inl (ErrRequest ''reset''))
          = None"
    by (simp add: job_function_def ok_response_def)
  show "(if Suc (count_list [] ''flaky'') = 0 then Inr ok_response else Inl (ErrRequest ''reset''))
          = Inl (ErrRequest ''reset'')"
    by simp
qed

end
